theory Spec2Isabelle
  imports Complex_Main
begin

section \<open>Strings of the response parser\<close>

text \<open>
  The parser of \<^verbatim>\<open>backend/src/gemini.ts\<close> works on JavaScript strings: sequences of
  UTF-16 code units. A code unit is a natural number here, so that the bullet
  \<^verbatim>\<open>U+2022\<close> and the Unicode white space of \<^verbatim>\<open>\s\<close> and \<^verbatim>\<open>trim\<close> are single
  characters, as they are for the program. \<open>lit\<close> writes an ASCII literal.
\<close>

type_synonym jschar = nat
type_synonym jsstring = "nat list"

abbreviation (input) lit :: "string \<Rightarrow> jsstring" where
  "lit s \<equiv> map of_char s"

definition bullet_char :: jschar where
  "bullet_char = 8226"

definition is_digit :: "jschar \<Rightarrow> bool" where
  \<comment> \<open>\<^verbatim>\<open>\d\<close>\<close>
  "is_digit c = (48 \<le> c \<and> c \<le> 57)"

definition is_word :: "jschar \<Rightarrow> bool" where
  \<comment> \<open>\<^verbatim>\<open>\w\<close>: ASCII letters, digits and the underscore\<close>
  "is_word c = (is_digit c \<or> (65 \<le> c \<and> c \<le> 90) \<or> (97 \<le> c \<and> c \<le> 122) \<or> c = 95)"

definition is_line_terminator :: "jschar \<Rightarrow> bool" where
  \<comment> \<open>LF, CR, U+2028, U+2029: what \<^verbatim>\<open>.\<close> does not match\<close>
  "is_line_terminator c = (c = 10 \<or> c = 13 \<or> c = 8232 \<or> c = 8233)"

definition is_space :: "jschar \<Rightarrow> bool" where
  \<comment> \<open>\<^verbatim>\<open>\s\<close>, and what \<^verbatim>\<open>String.prototype.trim\<close> removes: ECMAScript WhiteSpace and
      LineTerminator\<close>
  "is_space c =
     (c = 9 \<or> c = 11 \<or> c = 12 \<or> c = 32 \<or> c = 160 \<or> c = 5760 \<or> (8192 \<le> c \<and> c \<le> 8202)
      \<or> c = 8239 \<or> c = 8287 \<or> c = 12288 \<or> c = 65279 \<or> is_line_terminator c)"

definition canon :: "jschar \<Rightarrow> jschar" where
  \<comment> \<open>Canonicalize of a regular expression with the \<^verbatim>\<open>i\<close> flag and without the
      \<^verbatim>\<open>u\<close> flag: the upper-case letter. ECMAScript never maps a code unit from
      \<open>128\<close> on to an ASCII one here, so against an ASCII pattern only the ASCII
      letters fold.\<close>
  "canon c = (if 97 \<le> c \<and> c \<le> 122 then c - 32 else c)"

definition lower_unit :: "jschar \<Rightarrow> jsstring" where
  \<comment> \<open>\<^verbatim>\<open>toLowerCase\<close> of one code unit. Beyond ASCII only the two code units whose
      lower case contains an ASCII letter are mapped: the Kelvin sign U+212A gives
      \<^verbatim>\<open>k\<close>, and U+0130 gives \<^verbatim>\<open>i\<close> followed by U+0307. The program only
      tests the result against ASCII prefixes and applies it to \<^verbatim>\<open>\w+\<close> captures,
      and the lower case of every other code unit is outside ASCII as the code
      unit itself is.\<close>
  "lower_unit c =
     (if 65 \<le> c \<and> c \<le> 90 then [c + 32]
      else if c = 8490 then [107]
      else if c = 304 then [105, 775]
      else [c])"

definition toLowerCase :: "jsstring \<Rightarrow> jsstring" where
  "toLowerCase s = concat (map lower_unit s)"

definition startsWith :: "jsstring \<Rightarrow> jsstring \<Rightarrow> bool" where
  \<comment> \<open>\<^verbatim>\<open>s.startsWith(p)\<close>, the prefix first\<close>
  "startsWith p s = (take (length p) s = p)"

definition ci_starts :: "jsstring \<Rightarrow> jsstring \<Rightarrow> bool" where
  \<comment> \<open>the literal \<open>p\<close> of a pattern with the \<^verbatim>\<open>i\<close> flag matches at the start of \<open>s\<close>\<close>
  "ci_starts p s = (map canon (take (length p) s) = map canon p)"

definition trim :: "jsstring \<Rightarrow> jsstring" where
  "trim s = rev (dropWhile is_space (rev (dropWhile is_space s)))"

fun split_nl :: "jsstring \<Rightarrow> jsstring list" where
  \<comment> \<open>\<^verbatim>\<open>s.split('\n')\<close>: never empty, the empty string gives one empty piece\<close>
  "split_nl [] = [[]]"
| "split_nl (c # cs) =
     (if c = 10 then [] # split_nl cs
      else (case split_nl cs of [] \<Rightarrow> [[c]] | p # ps \<Rightarrow> (c # p) # ps))"

definition lines_of :: "jsstring \<Rightarrow> jsstring list" where
  \<comment> \<open>\<^verbatim>\<open>responseText.split('\n').map(line => line.trim()).filter(line => line.length > 0)\<close>\<close>
  "lines_of responseText = filter (\<lambda>l. length l > 0) (map trim (split_nl responseText))"

fun join_sp :: "jsstring list \<Rightarrow> jsstring" where
  \<comment> \<open>\<^verbatim>\<open>xs.join(' ')\<close>\<close>
  "join_sp [] = []"
| "join_sp [x] = x"
| "join_sp (x # y # zs) = x @ [32] @ join_sp (y # zs)"

fun findIndex :: "('a \<Rightarrow> bool) \<Rightarrow> 'a list \<Rightarrow> nat option" where
  \<comment> \<open>\<^verbatim>\<open>xs.findIndex(p)\<close>, with \<open>None\<close> for \<open>-1\<close>\<close>
  "findIndex p [] = None"
| "findIndex p (x # xs) = (if p x then Some 0 else map_option Suc (findIndex p xs))"

fun regex_search :: "(jsstring \<Rightarrow> 'a option) \<Rightarrow> jsstring \<Rightarrow> 'a option" where
  \<comment> \<open>an unanchored pattern: the match at the leftmost position that has one; \<open>pat\<close>
      is the pattern tried at the start of a string\<close>
  "regex_search pat [] = pat []"
| "regex_search pat (c # cs) =
     (case pat (c # cs) of Some m \<Rightarrow> Some m | None \<Rightarrow> regex_search pat cs)"

section \<open>The score scan\<close>

text \<open>
  The program's numbers are IEEE 754 doubles. The digits a pattern captures
  denote a decimal \<open>n / 10 ^ k\<close>; \<^verbatim>\<open>parseFloat\<close> and \<^verbatim>\<open>parseInt\<close> give the double
  nearest to it, ties to the even mantissa, and \<^verbatim>\<open>Infinity\<close> when that rounding
  reaches \<open>2 ^ 1024\<close> (the correctly rounded value, which is what V8 computes for
  digit strings of any length). A finite double is the rational number it stands
  for. Only numbers that are not negative occur. \<^verbatim>\<open>maxScore\<close> is an integer
  (the data model's \<^verbatim>\<open>maxScore: integer default 100\<close>).
\<close>

datatype 'a ext = Fin 'a | Infinity

fun bit_length :: "nat \<Rightarrow> nat" where
  \<comment> \<open>the number of binary digits: \<open>2 ^ (bit_length n - 1) \<le> n < 2 ^ bit_length n\<close>
      for \<open>n > 0\<close>\<close>
  "bit_length n = (if n = 0 then 0 else Suc (bit_length (n div 2)))"

declare bit_length.simps [simp del]

definition nearest_even :: "nat \<Rightarrow> nat \<Rightarrow> nat" where
  \<comment> \<open>the integer nearest to \<open>p / r\<close>, the even one of two that are equally near\<close>
  "nearest_even p r =
     (let fl = p div r; rm = p mod r
      in if 2 * rm < r then fl
         else if r < 2 * rm then fl + 1
         else if even fl then fl else fl + 1)"

definition at_least_pow2 :: "nat \<Rightarrow> nat \<Rightarrow> int \<Rightarrow> bool" where
  \<comment> \<open>\<open>2 ^ d \<le> n / 10 ^ k\<close>, for an exponent \<open>d\<close> of either sign\<close>
  "at_least_pow2 n k d =
     (if 0 \<le> d then 10 ^ k * 2 ^ nat d \<le> n else 10 ^ k \<le> n * 2 ^ nat (- d))"

definition binade :: "nat \<Rightarrow> nat \<Rightarrow> int" where
  \<comment> \<open>the exponent \<open>e\<close> with \<open>2 ^ e \<le> n / 10 ^ k < 2 ^ (e + 1)\<close>, for \<open>n > 0\<close>: the
      difference \<open>d\<close> of the two bit lengths, or one less\<close>
  "binade n k =
     (let d = int (bit_length n) - int (bit_length (10 ^ k))
      in if at_least_pow2 n k d then d else d - 1)"

definition to_double :: "nat \<Rightarrow> nat \<Rightarrow> rat ext" where
  \<comment> \<open>the double nearest to \<open>n / 10 ^ k\<close>. The doubles around it are the multiples of
      \<open>2 ^ s\<close>, \<open>s = e - 52\<close> for its binade \<open>e\<close>, or of \<open>2 ^ (- 1074)\<close> among the
      subnormal numbers; \<open>m\<close> is the multiple chosen.\<close>
  "to_double n k =
     (if n = 0 then Fin 0
      else
        (let s = max (binade n k) (- 1022) - 52;
             m = (if 0 \<le> s then nearest_even n (10 ^ k * 2 ^ nat s)
                  else nearest_even (n * 2 ^ nat (- s)) (10 ^ k))
         in if 0 \<le> s
            then (if 2 ^ 1024 \<le> m * 2 ^ nat s then Infinity else Fin (of_nat (m * 2 ^ nat s)))
            else Fin (of_nat m / 2 ^ nat (- s))))"

definition digits_val :: "jsstring \<Rightarrow> nat" where
  "digits_val ds = foldl (\<lambda>a c. 10 * a + (c - 48)) 0 ds"

definition parseInt :: "jsstring \<Rightarrow> int ext" where
  \<comment> \<open>\<^verbatim>\<open>parseInt\<close> of a string that starts with a digit: the double of its leading
      digits, which is an integer\<close>
  "parseInt s =
     (case to_double (digits_val (takeWhile is_digit s)) 0 of
        Fin x \<Rightarrow> Fin \<lfloor>x\<rfloor>
      | Infinity \<Rightarrow> Infinity)"

definition parseFloat :: "jsstring \<Rightarrow> rat ext" where
  \<comment> \<open>\<^verbatim>\<open>parseFloat\<close> of a capture of \<^verbatim>\<open>\d+(?:\.\d+)?\<close>: digits, and digits after a
      dot if there is one\<close>
  "parseFloat s =
     (let ip = takeWhile is_digit s;
          fp = (case dropWhile is_digit s of
                  [] \<Rightarrow> []
                | c # r \<Rightarrow> if c = 46 then takeWhile is_digit r else [])
      in to_double (digits_val (ip @ fp)) (length fp))"

definition Math_round :: "rat ext \<Rightarrow> int ext" where
  \<comment> \<open>\<^verbatim>\<open>Math.round\<close>: the nearest integer, the greater one of two that are equally
      near; it is a double whenever its argument is\<close>
  "Math_round v = (case v of Fin x \<Rightarrow> Fin \<lfloor>x + 1 / 2\<rfloor> | Infinity \<Rightarrow> Infinity)"

definition Math_min :: "int ext \<Rightarrow> int \<Rightarrow> int" where
  \<comment> \<open>\<^verbatim>\<open>Math.min(v, maxScore)\<close>\<close>
  "Math_min v maxScore = (case v of Fin n \<Rightarrow> min n maxScore | Infinity \<Rightarrow> maxScore)"

definition match_number :: "jsstring \<Rightarrow> (jsstring \<times> jsstring) option" where
  \<comment> \<open>\<^verbatim>\<open>(\d+(?:\.\d+)?)\<close> at the start of \<open>s\<close>: the capture and the rest. Both
      repetitions are greedy, and what follows the group in each pattern starts
      with neither a digit nor a dot, so no shorter capture ever matches.\<close>
  "match_number s =
     (let ip = takeWhile is_digit s; r = dropWhile is_digit s
      in if ip = [] then None
         else (case r of
                 [] \<Rightarrow> Some (ip, r)
               | c # r' \<Rightarrow>
                   if c = 46 \<and> takeWhile is_digit r' \<noteq> []
                   then Some (ip @ [46] @ takeWhile is_digit r', dropWhile is_digit r')
                   else Some (ip, r)))"

definition score_colon_at :: "jsstring \<Rightarrow> jsstring option" where
  \<comment> \<open>\<^verbatim>\<open>/SCORE:\s*(\d+(?:\.\d+)?)/i\<close> at the start of \<open>s\<close>: capture 1. The second
      pattern of the source, \<^verbatim>\<open>/Score:\s*(\d+(?:\.\d+)?)/i\<close>, is the same pattern
      under the \<^verbatim>\<open>i\<close> flag.\<close>
  "score_colon_at s =
     (if ci_starts (lit ''SCORE:'') s
      then map_option fst (match_number (dropWhile is_space (drop 6 s)))
      else None)"

definition score_slash_at :: "jsstring \<Rightarrow> jsstring option" where
  \<comment> \<open>\<^verbatim>\<open>/(\d+(?:\.\d+)?)\/\d+/\<close> at the start of \<open>s\<close>\<close>
  "score_slash_at s =
     (case match_number s of
        None \<Rightarrow> None
      | Some (n, r) \<Rightarrow>
          (case r of
             c # d # _ \<Rightarrow> if c = 47 \<and> is_digit d then Some n else None
           | _ \<Rightarrow> None))"

definition digit_follows :: "jsstring \<Rightarrow> bool" where
  \<comment> \<open>\<^verbatim>\<open>\s*\d+\<close> matches at the start of \<open>s\<close>\<close>
  "digit_follows s = (case dropWhile is_space s of [] \<Rightarrow> False | d # _ \<Rightarrow> is_digit d)"

definition score_out_of_at :: "jsstring \<Rightarrow> jsstring option" where
  \<comment> \<open>\<^verbatim>\<open>/(\d+(?:\.\d+)?)\s*(?:out of|\/)\s*\d+/i\<close> at the start of \<open>s\<close>\<close>
  "score_out_of_at s =
     (case match_number s of
        None \<Rightarrow> None
      | Some (n, r) \<Rightarrow>
          (let r1 = dropWhile is_space r
           in if ci_starts (lit ''out of'') r1
              then (if digit_follows (drop 6 r1) then Some n else None)
              else if startsWith (lit ''/'') r1
              then (if digit_follows (drop 1 r1) then Some n else None)
              else None))"

definition scorePatterns :: "(jsstring \<Rightarrow> jsstring option) list" where
  \<comment> \<open>the four patterns, each as \<^verbatim>\<open>line.match(pattern)\<close> giving \<^verbatim>\<open>match[1]\<close>\<close>
  "scorePatterns =
     [regex_search score_colon_at, regex_search score_colon_at,
      regex_search score_slash_at, regex_search score_out_of_at]"

fun first_pattern_match :: "(jsstring \<Rightarrow> jsstring option) list \<Rightarrow> jsstring \<Rightarrow> jsstring option" where
  \<comment> \<open>the inner loop \<^verbatim>\<open>for (const pattern of scorePatterns)\<close>, left at the first match\<close>
  "first_pattern_match [] l = None"
| "first_pattern_match (p # ps) l =
     (case p l of Some m \<Rightarrow> Some m | None \<Rightarrow> first_pattern_match ps l)"

fun score_scan :: "int \<Rightarrow> int \<Rightarrow> jsstring list \<Rightarrow> int" where
  \<comment> \<open>the outer loop \<^verbatim>\<open>for (const line of lines)\<close> with the running \<^verbatim>\<open>score\<close>, left by
      \<^verbatim>\<open>if (score > 0) break\<close>\<close>
  "score_scan maxScore sc [] = sc"
| "score_scan maxScore sc (l # rest) =
     (let sc' = (case first_pattern_match scorePatterns l of
                   Some m \<Rightarrow> Math_min (Math_round (parseFloat m)) maxScore
                 | None \<Rightarrow> sc)
      in if sc' > 0 then sc' else score_scan maxScore sc' rest)"

definition extract_score :: "jsstring list \<Rightarrow> int \<Rightarrow> int" where
  \<comment> \<open>\<^verbatim>\<open>let score = 0\<close> and the scan\<close>
  "extract_score lns maxScore = score_scan maxScore 0 lns"

section \<open>Sections of the reply\<close>

record CodeIssue =
  type :: jsstring
  line :: "int ext option"
  description :: jsstring
  severity :: jsstring
  suggestion :: jsstring

record AnalysisResult =
  score :: int
  feedback :: jsstring
  strengths :: "jsstring list"
  improvements :: "jsstring list"
  category :: "jsstring option"
  correctedCode :: "jsstring option"
  optimizedCode :: "jsstring option"
  codeIssues :: "CodeIssue list option"

definition has_marker :: "jsstring \<Rightarrow> jsstring \<Rightarrow> bool" where
  \<comment> \<open>\<^verbatim>\<open>line.toLowerCase().startsWith(marker)\<close>\<close>
  "has_marker marker l = startsWith marker (toLowerCase l)"

fun remove_marker :: "jsstring \<Rightarrow> jsstring \<Rightarrow> jsstring" where
  \<comment> \<open>\<^verbatim>\<open>s.replace(/marker\s*/i, '')\<close> for a non-empty literal \<open>marker\<close>: the leftmost
      match is removed, with all the white space after it\<close>
  "remove_marker marker [] = []"
| "remove_marker marker (c # cs) =
     (if ci_starts marker (c # cs) then dropWhile is_space (drop (length marker) (c # cs))
      else c # remove_marker marker cs)"

definition extract_category :: "jsstring list \<Rightarrow> jsstring option" where
  \<comment> \<open>\<^verbatim>\<open>lines.find(...)?.replace(/category:\s*/i, '').trim()\<close>\<close>
  "extract_category lns =
     map_option (\<lambda>l. trim (remove_marker (lit ''category:'') l))
       (find (has_marker (lit ''category:'')) lns)"

fun feedback_loop :: "(jsstring \<Rightarrow> bool) \<Rightarrow> jsstring list \<Rightarrow> jsstring list" where
  \<comment> \<open>the loop from \<^verbatim>\<open>feedbackIndex + 1\<close>: what it pushes, until a line breaks it\<close>
  "feedback_loop stop [] = []"
| "feedback_loop stop (l # rest) = (if stop l then [] else l # feedback_loop stop rest)"

definition extract_feedback :: "(jsstring \<Rightarrow> bool) \<Rightarrow> jsstring list \<Rightarrow> jsstring" where
  "extract_feedback stop lns =
     (case findIndex (has_marker (lit ''feedback:'')) lns of
        None \<Rightarrow> []
      | Some i \<Rightarrow>
          (let feedbackLines =
                 (if length (lns ! i) > length (lit ''feedback:'')
                  then [remove_marker (lit ''feedback:'') (lns ! i)] else [])
                 @ feedback_loop stop (drop (i + 1) lns)
           in trim (join_sp feedbackLines)))"

definition is_bullet :: "jsstring \<Rightarrow> bool" where
  \<comment> \<open>\<^verbatim>\<open>line.startsWith('-') || line.startsWith('\<bullet>') || line.match(/^\d+\./)\<close>\<close>
  "is_bullet l =
     (startsWith (lit ''-'') l \<or> startsWith [bullet_char] l
      \<or> (takeWhile is_digit l \<noteq> [] \<and> startsWith (lit ''.'') (dropWhile is_digit l)))"

definition in_bullet_class :: "jschar \<Rightarrow> bool" where
  \<comment> \<open>the class \<^verbatim>\<open>[-\<bullet>\d.\s]\<close>\<close>
  "in_bullet_class c = (c = 45 \<or> c = bullet_char \<or> is_digit c \<or> c = 46 \<or> is_space c)"

definition strip_bullet :: "jsstring \<Rightarrow> jsstring" where
  \<comment> \<open>\<^verbatim>\<open>line.replace(/^[-\<bullet>\d.\s]+/, '').trim()\<close>\<close>
  "strip_bullet l = trim (dropWhile in_bullet_class l)"

fun bullet_loop :: "(jsstring \<Rightarrow> bool) \<Rightarrow> jsstring list \<Rightarrow> jsstring list" where
  \<comment> \<open>the loop from the line after a section marker: the items it pushes\<close>
  "bullet_loop stop [] = []"
| "bullet_loop stop (l # rest) =
     (if stop l then []
      else if is_bullet l then strip_bullet l # bullet_loop stop rest
      else bullet_loop stop rest)"

definition extract_bullets :: "jsstring \<Rightarrow> (jsstring \<Rightarrow> bool) \<Rightarrow> jsstring list \<Rightarrow> jsstring list" where
  "extract_bullets marker stop lns =
     (case findIndex (has_marker marker) lns of
        None \<Rightarrow> []
      | Some i \<Rightarrow> bullet_loop stop (drop (i + 1) lns))"

section \<open>The generic variant\<close>

datatype try_outcome = Completes | Throws

text \<open>
  Every operation of the \<^verbatim>\<open>try\<close> block is total on strings; only the runtime can
  make it throw (the two \<^verbatim>\<open>console.log\<close> calls, the pattern engine). Whether it
  does is the parameter \<open>try_outcome\<close> of the parse functions.
\<close>

definition feedback_stop :: "jsstring \<Rightarrow> bool" where
  "feedback_stop l =
     (has_marker (lit ''strengths:'') l \<or> has_marker (lit ''improvements:'') l
      \<or> has_marker (lit ''score:'') l)"

definition parseAnalysisResponse_try :: "jsstring \<Rightarrow> int \<Rightarrow> AnalysisResult" where
  "parseAnalysisResponse_try responseText maxScore =
     (let lns = lines_of responseText;
          sc = extract_score lns maxScore;
          cat = extract_category lns;
          fb = extract_feedback feedback_stop lns;
          strs = extract_bullets (lit ''strengths:'') (has_marker (lit ''improvements:'')) lns;
          imps = extract_bullets (lit ''improvements:'') (\<lambda>l. False) lns
      in \<lparr>score = sc,
          feedback = (if fb \<noteq> [] then fb else lit ''Analysis completed successfully''),
          strengths = (if length strs > 0 then strs else [lit ''Text structure is present'']),
          improvements = (if length imps > 0 then imps else [lit ''Consider reviewing for clarity'']),
          category = cat,
          correctedCode = None, optimizedCode = None, codeIssues = None\<rparr>)"

definition digits_at :: "jsstring \<Rightarrow> jsstring option" where
  \<comment> \<open>\<^verbatim>\<open>(\d+)\<close> at the start of \<open>s\<close>; the group after it in the fallback pattern is
      optional and carries no capture\<close>
  "digits_at s = (if takeWhile is_digit s = [] then None else Some (takeWhile is_digit s))"

definition fallbackScore :: "jsstring \<Rightarrow> int \<Rightarrow> int" where
  \<comment> \<open>\<^verbatim>\<open>/(\d+)(?:\s*\/\s*\d+|\s*out\s*of\s*\d+|\s*points?)?/i\<close>, then
      \<^verbatim>\<open>scoreMatch ? Math.min(parseInt(scoreMatch[1]), maxScore) : 50\<close>\<close>
  "fallbackScore responseText maxScore =
     (case regex_search digits_at responseText of
        Some m \<Rightarrow> Math_min (parseInt m) maxScore
      | None \<Rightarrow> 50)"

definition parseAnalysisResponse_catch :: "jsstring \<Rightarrow> int \<Rightarrow> AnalysisResult" where
  "parseAnalysisResponse_catch responseText maxScore =
     \<lparr>score = fallbackScore responseText maxScore,
      feedback = lit ''Analysis completed but parsing encountered issues. Please check the raw response for details.'',
      strengths = [lit ''Content provided for analysis''],
      improvements = [lit ''Consider simplifying the analysis request''],
      category = None, correctedCode = None, optimizedCode = None, codeIssues = None\<rparr>"

definition parseAnalysisResponse :: "try_outcome \<Rightarrow> jsstring \<Rightarrow> int \<Rightarrow> AnalysisResult" where
  "parseAnalysisResponse oc responseText maxScore =
     (case oc of
        Completes \<Rightarrow> parseAnalysisResponse_try responseText maxScore
      | Throws \<Rightarrow> parseAnalysisResponse_catch responseText maxScore)"

section \<open>The code variant\<close>

definition fence :: jsstring where
  "fence = lit ''```''"

fun until_fence :: "jsstring \<Rightarrow> jsstring option" where
  \<comment> \<open>\<^verbatim>\<open>([\s\S]*?)```\<close>: the lazy capture is the text before the first fence\<close>
  "until_fence [] = None"
| "until_fence (c # cs) =
     (if startsWith fence (c # cs) then Some []
      else map_option ((#) c) (until_fence cs))"

definition code_block_at :: "jsstring \<Rightarrow> jsstring \<Rightarrow> jsstring option" where
  \<comment> \<open>\<^verbatim>\<open>/MARKER:\s*```[\w]*\n([\s\S]*?)```/i\<close> at the start of \<open>s\<close>: capture 1. White
      space, the back quote, word characters and the line feed exclude each other,
      so the greedy repetitions have one way to match.\<close>
  "code_block_at marker s =
     (if ci_starts marker s
      then (let r1 = dropWhile is_space (drop (length marker) s)
            in if startsWith fence r1
               then (case dropWhile is_word (drop 3 r1) of
                       [] \<Rightarrow> None
                     | c # r2 \<Rightarrow> if c = 10 then until_fence r2 else None)
               else None)
      else None)"

definition extract_code :: "jsstring \<Rightarrow> jsstring \<Rightarrow> jsstring" where
  \<comment> \<open>\<^verbatim>\<open>let correctedCode = ''\<close>, then the trimmed capture if the pattern matches\<close>
  "extract_code marker responseText =
     (case regex_search (code_block_at marker) responseText of
        None \<Rightarrow> []
      | Some m \<Rightarrow> trim m)"

definition expect_ci :: "jsstring \<Rightarrow> jsstring \<Rightarrow> jsstring option" where
  \<comment> \<open>\<^verbatim>\<open>\s*\<close> and then a literal under the \<^verbatim>\<open>i\<close> flag: the rest after it\<close>
  "expect_ci p s =
     (let r = dropWhile is_space s
      in if ci_starts p r then Some (drop (length p) r) else None)"

definition word_at :: "jsstring \<Rightarrow> (jsstring \<times> jsstring) option" where
  \<comment> \<open>\<^verbatim>\<open>\s*(\w+)\<close>\<close>
  "word_at s =
     (let r = dropWhile is_space s
      in if takeWhile is_word r = [] then None
         else Some (takeWhile is_word r, dropWhile is_word r))"

definition line_group_at :: "jsstring \<Rightarrow> (jsstring \<times> jsstring) option" where
  \<comment> \<open>\<^verbatim>\<open>\s*\|\s*LINE:\s*(\d+)\<close>\<close>
  "line_group_at s =
     (case expect_ci (lit ''|'') s of
        None \<Rightarrow> None
      | Some r1 \<Rightarrow>
          (case expect_ci (lit ''LINE:'') r1 of
             None \<Rightarrow> None
           | Some r2 \<Rightarrow>
               (let r3 = dropWhile is_space r2
                in if takeWhile is_digit r3 = [] then None
                   else Some (takeWhile is_digit r3, dropWhile is_digit r3))))"

definition description_at :: "jsstring \<Rightarrow> (jsstring \<times> jsstring) option" where
  \<comment> \<open>\<^verbatim>\<open>\s*([^|]+)\s*\|\<close>: the capture and the rest after the bar. The greedy
      capture runs to the first bar. When the bar follows the white space at once,
      \<^verbatim>\<open>\s*\<close> gives its last character back to the capture.\<close>
  "description_at s =
     (let w = takeWhile is_space s; r = dropWhile is_space s
      in case dropWhile (\<lambda>c. c \<noteq> 124) r of
           [] \<Rightarrow> None
         | _ # after \<Rightarrow>
             if takeWhile (\<lambda>c. c \<noteq> 124) r \<noteq> [] then Some (takeWhile (\<lambda>c. c \<noteq> 124) r, after)
             else if w = [] then None
             else Some ([last w], after))"

definition suggestion_at :: "jsstring \<Rightarrow> jsstring option" where
  \<comment> \<open>\<^verbatim>\<open>\s*(.+)\<close>: the capture runs to the next line terminator or to the end. When
      the white space reaches the end, \<^verbatim>\<open>\s*\<close> gives characters back up to its
      last one that is no line terminator.\<close>
  "suggestion_at s =
     (let w = takeWhile is_space s; r = dropWhile is_space s
      in if r \<noteq> [] then Some (takeWhile (\<lambda>c. \<not> is_line_terminator c) r)
         else (case dropWhile is_line_terminator (rev w) of
                 [] \<Rightarrow> None
               | c # _ \<Rightarrow> Some [c]))"

definition issue_tail :: "jsstring \<Rightarrow> jsstring \<Rightarrow> jsstring option \<Rightarrow> jsstring \<Rightarrow> CodeIssue option" where
  \<comment> \<open>\<^verbatim>\<open>\s*\|\s*DESCRIPTION:\s*([^|]+)\s*\|\s*SUGGESTION:\s*(.+)\<close>, and the object
      pushed for the match\<close>
  "issue_tail ty sev lno s =
     (case expect_ci (lit ''|'') s of
        None \<Rightarrow> None
      | Some r1 \<Rightarrow>
          (case expect_ci (lit ''DESCRIPTION:'') r1 of
             None \<Rightarrow> None
           | Some r2 \<Rightarrow>
               (case description_at r2 of
                  None \<Rightarrow> None
                | Some (desc, r3) \<Rightarrow>
                    (case expect_ci (lit ''SUGGESTION:'') r3 of
                       None \<Rightarrow> None
                     | Some r4 \<Rightarrow>
                         (case suggestion_at r4 of
                            None \<Rightarrow> None
                          | Some sug \<Rightarrow>
                              Some \<lparr>type = toLowerCase ty,
                                    line = map_option parseInt lno,
                                    description = trim desc,
                                    severity = toLowerCase sev,
                                    suggestion = trim sug\<rparr>)))))"

definition issue_at :: "jsstring \<Rightarrow> CodeIssue option" where
  \<comment> \<open>the issue pattern
      \<^verbatim>\<open>/TYPE:\s*(\w+)\s*\|\s*SEVERITY:\s*(\w+)(?:\s*\|\s*LINE:\s*(\d+))?\s*\|\s*DESCRIPTION:\s*([^|]+)\s*\|\s*SUGGESTION:\s*(.+)/i\<close>
      at the start of \<open>s\<close>. The optional group is tried first, and left out if the
      rest does not match after it.\<close>
  "issue_at s =
     (if ci_starts (lit ''TYPE:'') s
      then (case word_at (drop 5 s) of
              None \<Rightarrow> None
            | Some (ty, r1) \<Rightarrow>
                (case expect_ci (lit ''|'') r1 of
                   None \<Rightarrow> None
                 | Some r2 \<Rightarrow>
                     (case expect_ci (lit ''SEVERITY:'') r2 of
                        None \<Rightarrow> None
                      | Some r3 \<Rightarrow>
                          (case word_at r3 of
                             None \<Rightarrow> None
                           | Some (sev, r4) \<Rightarrow>
                               (case line_group_at r4 of
                                  None \<Rightarrow> issue_tail ty sev None r4
                                | Some (ds, r5) \<Rightarrow>
                                    (case issue_tail ty sev (Some ds) r5 of
                                       Some i \<Rightarrow> Some i
                                     | None \<Rightarrow> issue_tail ty sev None r4))))))
      else None)"

fun issues_loop :: "jsstring list \<Rightarrow> CodeIssue list" where
  \<comment> \<open>the loop from \<^verbatim>\<open>issuesIndex + 1\<close> to the last line: the issues it pushes\<close>
  "issues_loop [] = []"
| "issues_loop (l # rest) =
     (if startsWith (lit ''-'') l \<or> startsWith [bullet_char] l
      then (case regex_search issue_at l of
              Some i \<Rightarrow> i # issues_loop rest
            | None \<Rightarrow> issues_loop rest)
      else issues_loop rest)"

definition extract_issues :: "jsstring list \<Rightarrow> CodeIssue list" where
  "extract_issues lns =
     (case findIndex (has_marker (lit ''code_issues:'')) lns of
        None \<Rightarrow> []
      | Some i \<Rightarrow> issues_loop (drop (i + 1) lns))"

definition code_section_start :: "jsstring \<Rightarrow> bool" where
  "code_section_start l =
     (has_marker (lit ''corrected_code:'') l \<or> has_marker (lit ''optimized_code:'') l
      \<or> has_marker (lit ''code_issues:'') l)"

definition code_feedback_stop :: "jsstring \<Rightarrow> bool" where
  "code_feedback_stop l =
     (has_marker (lit ''strengths:'') l \<or> has_marker (lit ''improvements:'') l
      \<or> has_marker (lit ''corrected_code:'') l \<or> has_marker (lit ''optimized_code:'') l
      \<or> has_marker (lit ''code_issues:'') l)"

definition code_strengths_stop :: "jsstring \<Rightarrow> bool" where
  "code_strengths_stop l =
     (has_marker (lit ''improvements:'') l \<or> has_marker (lit ''corrected_code:'') l
      \<or> has_marker (lit ''optimized_code:'') l \<or> has_marker (lit ''code_issues:'') l)"

definition parseCodeAnalysisResponse_try :: "jsstring \<Rightarrow> int \<Rightarrow> AnalysisResult" where
  "parseCodeAnalysisResponse_try responseText maxScore =
     (let lns = lines_of responseText;
          sc = extract_score lns maxScore;
          cat = extract_category lns;
          fb = extract_feedback code_feedback_stop lns;
          strs = extract_bullets (lit ''strengths:'') code_strengths_stop lns;
          imps = extract_bullets (lit ''improvements:'') code_section_start lns;
          corrected = extract_code (lit ''CORRECTED_CODE:'') responseText;
          optimized = extract_code (lit ''OPTIMIZED_CODE:'') responseText;
          issues = extract_issues lns
      in \<lparr>score = sc,
          feedback = (if fb \<noteq> [] then fb else lit ''Code analysis completed successfully''),
          strengths = (if length strs > 0 then strs else [lit ''Code structure is present'']),
          improvements =
            (if length imps > 0 then imps else [lit ''Consider reviewing for best practices'']),
          category = cat,
          correctedCode = (if corrected \<noteq> [] then Some corrected else None),
          optimizedCode = (if optimized \<noteq> [] then Some optimized else None),
          codeIssues = (if length issues > 0 then Some issues else None)\<rparr>)"

definition parseCodeAnalysisResponse_catch :: "jsstring \<Rightarrow> int \<Rightarrow> AnalysisResult" where
  "parseCodeAnalysisResponse_catch responseText maxScore =
     \<lparr>score = fallbackScore responseText maxScore,
      feedback = lit ''Code analysis completed but parsing encountered issues.'',
      strengths = [lit ''Code provided for analysis''],
      improvements = [lit ''Consider simplifying the code structure''],
      category = None, correctedCode = None, optimizedCode = None, codeIssues = None\<rparr>"

definition parseCodeAnalysisResponse :: "try_outcome \<Rightarrow> jsstring \<Rightarrow> int \<Rightarrow> AnalysisResult" where
  "parseCodeAnalysisResponse oc responseText maxScore =
     (case oc of
        Completes \<Rightarrow> parseCodeAnalysisResponse_try responseText maxScore
      | Throws \<Rightarrow> parseCodeAnalysisResponse_catch responseText maxScore)"

section \<open>The summarize route\<close>

text \<open>
  \<^verbatim>\<open>router.post('/summarize', ...)\<close> of \<^verbatim>\<open>backend/src/routes/summarize.ts\<close>. The
  request body is the object the JSON middleware parsed, a map from property
  names to JSON values. The AI client and the database are outside the
  repository: the environment says what they answer, and the state records
  every call made to them.
\<close>

datatype jsvalue =
    JUndefined | JNull | JBool bool | JNumber rat | JString jsstring
  | JArray "jsvalue list" | JObject "(jsstring \<times> jsvalue) list"

fun truthy :: "jsvalue \<Rightarrow> bool" where
  "truthy JUndefined = False"
| "truthy JNull = False"
| "truthy (JBool b) = b"
| "truthy (JNumber n) = (n \<noteq> 0)"
| "truthy (JString s) = (s \<noteq> [])"
| "truthy (JArray xs) = True"
| "truthy (JObject kvs) = True"

record Summary =
  id_col :: nat
  inputText :: jsstring
  outputText :: jsstring
  createdAt :: nat

record environment =
  generateContent :: "jsstring \<Rightarrow> jsstring option"
    \<comment> \<open>the model's reply to a prompt; \<open>None\<close> when the call throws or has no response\<close>
  toString :: "jsvalue \<Rightarrow> jsstring"
    \<comment> \<open>the string a template literal makes of a value\<close>
  prisma_create :: "Summary list \<Rightarrow> jsvalue \<Rightarrow> jsstring \<Rightarrow> Summary option"
    \<comment> \<open>the row \<^verbatim>\<open>prisma.summary.create\<close> stores, given the table; \<open>None\<close> when it throws\<close>

record world =
  ai_calls :: "jsstring list"
  db_calls :: "(jsvalue \<times> jsstring) list"
  summaries :: "Summary list"

datatype json_body = ErrorBody jsstring | SummaryBody Summary

record response =
  status :: nat
  body :: json_body

definition summarizeText :: "environment \<Rightarrow> jsvalue \<Rightarrow> world \<Rightarrow> jsstring option \<times> world" where
  \<comment> \<open>\<^verbatim>\<open>summarizeText\<close> of \<^verbatim>\<open>gemini.ts\<close>: one call of the model with the fixed prompt\<close>
  "summarizeText env text w =
     (let prompt = lit ''Summarize the following text in a concise paragraph:'' @ [10, 10]
                   @ toString env text
      in (generateContent env prompt, w\<lparr>ai_calls := ai_calls w @ [prompt]\<rparr>))"

definition text_of :: "(jsstring \<rightharpoonup> jsvalue) \<Rightarrow> jsvalue" where
  \<comment> \<open>\<^verbatim>\<open>const { text } = req.body\<close>: a property the body lacks is \<^verbatim>\<open>undefined\<close>\<close>
  "text_of req_body = (case req_body (lit ''text'') of None \<Rightarrow> JUndefined | Some v \<Rightarrow> v)"

definition summarize_handler ::
  "environment \<Rightarrow> (jsstring \<rightharpoonup> jsvalue) \<Rightarrow> world \<Rightarrow> response \<times> world" where
  "summarize_handler env req_body w =
     (let text = text_of req_body
      in if \<not> truthy text
         then (\<lparr>status = 400, body = ErrorBody (lit ''Text is required'')\<rparr>, w)
         else (case summarizeText env text w of
                 (None, w1) \<Rightarrow>
                   (\<lparr>status = 500, body = ErrorBody (lit ''Something went wrong'')\<rparr>, w1)
               | (Some summary, w1) \<Rightarrow>
                   (let w2 = w1\<lparr>db_calls := db_calls w1 @ [(text, summary)]\<rparr>
                    in case prisma_create env (summaries w2) text summary of
                         None \<Rightarrow>
                           (\<lparr>status = 500, body = ErrorBody (lit ''Something went wrong'')\<rparr>, w2)
                       | Some saved \<Rightarrow>
                           (\<lparr>status = 200, body = SummaryBody saved\<rparr>,
                            w2\<lparr>summaries := summaries w2 @ [saved]\<rparr>))))"

section \<open>Descriptions the claims are stated with\<close>

definition line_score :: "int \<Rightarrow> jsstring \<Rightarrow> int option" where
  \<comment> \<open>what a line sets the running score to: \<open>min(round(N), maxScore)\<close> for the capture
      \<open>N\<close> of the first pattern that matches it, \<open>None\<close> when no pattern matches\<close>
  "line_score maxScore l =
     map_option (\<lambda>m. Math_min (Math_round (parseFloat m)) maxScore)
       (first_pattern_match scorePatterns l)"

definition scores_positive :: "int \<Rightarrow> jsstring \<Rightarrow> bool" where
  "scores_positive maxScore l = (case line_score maxScore l of None \<Rightarrow> False | Some v \<Rightarrow> 0 < v)"

definition feedback_text :: "(jsstring \<Rightarrow> bool) \<Rightarrow> jsstring list \<Rightarrow> jsstring" where
  \<comment> \<open>the feedback as the amended C4 describes it: from the first line that starts with
      \<^verbatim>\<open>feedback:\<close>, without these nine characters and the white space after them, up
      to the first line \<open>stop\<close> holds for, joined with spaces and trimmed\<close>
  "feedback_text stop lns =
     (case dropWhile (\<lambda>l. \<not> has_marker (lit ''feedback:'') l) lns of
        [] \<Rightarrow> []
      | l # rest \<Rightarrow>
          trim (join_sp ((if length l > 9 then [dropWhile is_space (drop 9 l)] else [])
                         @ takeWhile (\<lambda>l. \<not> stop l) rest)))"

definition section_after :: "jsstring \<Rightarrow> (jsstring \<Rightarrow> bool) \<Rightarrow> jsstring list \<Rightarrow> jsstring list" where
  \<comment> \<open>a section as the parser delimits it: the lines after the first line that starts
      with the marker, up to the first line \<open>stop\<close> holds for\<close>
  "section_after marker stop lns =
     (case dropWhile (\<lambda>l. \<not> has_marker marker l) lns of
        [] \<Rightarrow> []
      | l # rest \<Rightarrow> takeWhile (\<lambda>l. \<not> stop l) rest)"

definition conforming_issue_lines :: "jsstring list \<Rightarrow> jsstring list" where
  \<comment> \<open>the bullet lines after the first \<^verbatim>\<open>code_issues:\<close> line that the issue pattern matches\<close>
  "conforming_issue_lines lns =
     filter (\<lambda>l. (startsWith (lit ''-'') l \<or> startsWith [bullet_char] l)
                  \<and> regex_search issue_at l \<noteq> None)
       (section_after (lit ''code_issues:'') (\<lambda>l. False) lns)"

section \<open>Facts about the building blocks\<close>

lemmas char_defs =
  is_space_def is_line_terminator_def is_digit_def is_word_def canon_def bullet_char_def

lemmas match_defs =
  scorePatterns_def score_colon_at_def score_slash_at_def score_out_of_at_def
  match_number_def digit_follows_def ci_starts_def startsWith_def digits_at_def

lemmas number_defs =
  parseFloat_def parseInt_def Math_round_def Math_min_def digits_val_def to_double_def
  binade_def at_least_pow2_def nearest_even_def bit_length.simps Let_def

lemmas section_defs =
  has_marker_def toLowerCase_def lower_unit_def extract_category_def extract_feedback_def
  is_bullet_def in_bullet_class_def strip_bullet_def extract_bullets_def trim_def

lemma floor_rat_numeral [simp]:
  "\<lfloor>numeral a / numeral b :: rat\<rfloor> = numeral a div numeral b"
  using floor_divide_of_int_eq [of "numeral a" "numeral b", where ?'a = rat] by simp

lemma floor_rat_one_numeral [simp]:
  "\<lfloor>1 / numeral b :: rat\<rfloor> = 1 div numeral b"
  using floor_divide_of_int_eq [of 1 "numeral b", where ?'a = rat] by simp

lemma bit_length_le: "n < 2 ^ j \<Longrightarrow> bit_length n \<le> j"
proof (induction j arbitrary: n)
  case 0
  then show ?case by (simp add: bit_length.simps)
next
  case (Suc j)
  show ?case
  proof (cases "n = 0")
    case True
    then show ?thesis by (simp add: bit_length.simps)
  next
    case False
    from Suc.prems have "n div 2 < 2 ^ j"
      by simp
    from Suc.IH [OF this] False show ?thesis
      by (subst bit_length.simps) simp
  qed
qed

lemma bit_length_pos: "0 < n \<Longrightarrow> 0 < bit_length n"
  by (subst bit_length.simps) simp

lemma bit_length_bounds:
  "0 < n \<Longrightarrow> 2 ^ (bit_length n - 1) \<le> n \<and> n < 2 ^ bit_length n"
proof (induction n rule: bit_length.induct)
  case (1 n)
  show ?case
  proof (cases "n div 2 = 0")
    case True
    with "1.prems" have "n = 1"
      by presburger
    then show ?thesis
      by (simp add: bit_length.simps)
  next
    case False
    then have pos: "0 < n div 2" by simp
    from "1.prems" have n0: "n \<noteq> 0" by simp
    from "1.IH" [OF n0 pos]
    have ih: "2 ^ (bit_length (n div 2) - 1) \<le> n div 2" "n div 2 < 2 ^ bit_length (n div 2)"
      by simp_all
    have bl: "bit_length n = Suc (bit_length (n div 2))"
      using n0 by (subst bit_length.simps) simp
    have p: "0 < bit_length (n div 2)"
      using pos by (rule bit_length_pos)
    have "2 ^ (bit_length n - 1) = 2 * 2 ^ (bit_length (n div 2) - 1)"
      using bl p by (cases "bit_length (n div 2)") simp_all
    also have "\<dots> \<le> 2 * (n div 2)"
      using ih(1) by simp
    also have "\<dots> \<le> n"
      by simp
    finally have lo: "2 ^ (bit_length n - 1) \<le> n" .
    have "n < 2 * (n div 2) + 2"
      by presburger
    also have "\<dots> \<le> 2 * 2 ^ bit_length (n div 2)"
      using ih(2) by simp
    finally have "n < 2 ^ bit_length n"
      using bl by simp
    with lo show ?thesis by simp
  qed
qed

lemma binade_bounds:
  assumes "0 < n"
  shows "at_least_pow2 n k (binade n k) \<and> \<not> at_least_pow2 n k (binade n k + 1)"
proof -
  define bn where "bn = bit_length n"
  define bd where "bd = bit_length (10 ^ k)"
  define D :: nat where "D = 10 ^ k"
  have Dpos: "0 < D" by (simp add: D_def)
  from bit_length_bounds [OF assms] have n: "2 ^ (bn - 1) \<le> n" "n < 2 ^ bn"
    by (simp_all add: bn_def)
  from bit_length_bounds [OF Dpos] have dd: "2 ^ (bd - 1) \<le> D" "D < 2 ^ bd"
    by (simp_all add: bd_def D_def)
  have bnp: "0 < bn" unfolding bn_def using assms by (rule bit_length_pos)
  have bdp: "0 < bd" unfolding bd_def D_def[symmetric] using Dpos by (rule bit_length_pos)
  have lower: "at_least_pow2 n k (int bn - int bd - 1)"
  proof (cases "0 \<le> int bn - int bd - 1")
    case True
    define j where "j = bn - bd - 1"
    have j: "bn = bd + j + 1"
      using True by (simp add: j_def)
    then have e: "nat (int bn - int bd - 1) = j" by simp
    have "D * 2 ^ j \<le> 2 ^ bd * 2 ^ j"
      using dd(2) by simp
    also have "\<dots> = 2 ^ (bn - 1)"
      using j by (simp add: power_add)
    also have "\<dots> \<le> n" by (rule n(1))
    finally show ?thesis
      using True e by (simp add: at_least_pow2_def D_def)
  next
    case False
    define j where "j = bd - bn"
    have j: "bd = bn + j"
      using False by (simp add: j_def)
    then have e: "nat (- (int bn - int bd - 1)) = j + 1" by simp
    have "D \<le> 2 ^ bd" using dd(2) by simp
    also have "\<dots> = 2 ^ (bn - 1) * 2 ^ (j + 1)"
      using j bnp by (cases bn) (simp_all add: power_add)
    also have "\<dots> \<le> n * 2 ^ (j + 1)"
      using n(1) by simp
    finally show ?thesis
      using False e by (simp add: at_least_pow2_def D_def)
  qed
  have upper: "\<not> at_least_pow2 n k (int bn - int bd + 1)"
  proof (cases "0 \<le> int bn - int bd + 1")
    case True
    define j where "j = bn + 1 - bd"
    have j: "bn + 1 = bd + j"
      using True by (simp add: j_def)
    then have e: "nat (int bn - int bd + 1) = j" by linarith
    have "n < 2 ^ bn" by (rule n(2))
    also have "\<dots> = 2 ^ (bd - 1) * 2 ^ j"
      using j bdp by (cases bd) (simp_all add: power_add[symmetric])
    also have "\<dots> \<le> D * 2 ^ j"
      using dd(1) by simp
    finally show ?thesis
      using True e by (simp add: at_least_pow2_def D_def not_le)
  next
    case False
    define j where "j = bd - bn - 2"
    have j: "bd = bn + j + 2"
      using False by (simp add: j_def)
    then have e: "nat (- (int bn - int bd + 1)) = j + 1" by simp
    have "n * 2 ^ (j + 1) < 2 ^ bn * 2 ^ (j + 1)"
      using n(2) by simp
    also have "\<dots> = 2 ^ (bd - 1)"
      using j by (simp add: power_add)
    also have "\<dots> \<le> D" by (rule dd(1))
    finally show ?thesis
      using False e by (simp add: at_least_pow2_def D_def not_le)
  qed
  show ?thesis
  proof (cases "at_least_pow2 n k (int bn - int bd)")
    case True
    then have "binade n k = int bn - int bd"
      by (simp add: binade_def Let_def bn_def bd_def)
    with True upper show ?thesis by simp
  next
    case False
    then have "binade n k = int bn - int bd - 1"
      by (simp add: binade_def Let_def bn_def bd_def)
    with False lower show ?thesis by simp
  qed
qed

lemma nearest_even_near:
  assumes "0 < r"
  shows "2 * (p - nearest_even p r * r) \<le> r \<and> 2 * (nearest_even p r * r - p) \<le> r"
proof -
  define q where "q = p div r"
  define m where "m = p mod r"
  have p: "p = q * r + m"
    by (simp add: q_def m_def)
  have m: "m < r"
    using assms by (simp add: m_def)
  have ne: "nearest_even p r =
      (if 2 * m < r then q else if r < 2 * m then q + 1 else if even q then q else q + 1)"
    by (simp add: nearest_even_def Let_def q_def m_def)
  show ?thesis
    unfolding ne using p m by (auto simp: algebra_simps)
qed

lemma binade_small:
  assumes "n < 2 ^ 53"
  shows "binade n 0 \<le> 52"
proof -
  have "bit_length (10 ^ 0) = 1"
    by (simp add: bit_length.simps)
  with bit_length_le [OF assms] show ?thesis
    by (simp add: binade_def Let_def)
qed

lemma to_double_exact_integer:
  assumes "n < 2 ^ 53"
  shows "to_double n 0 = Fin (of_nat n)"
proof (cases "n = 0")
  case True
  then show ?thesis by (simp add: to_double_def)
next
  case False
  obtain s where s: "max (binade n 0) (- 1022) - 52 = s"
    by simp
  with binade_small [OF assms] have le: "s \<le> 0"
    by simp
  show ?thesis
  proof (cases "s = 0")
    case True
    have "n < (2::nat) ^ 1024"
      using assms by (rule less_le_trans) simp
    then show ?thesis
      unfolding to_double_def Let_def s using True False
      by (simp add: nearest_even_def not_le)
  next
    case neg: False
    with le have "s < 0" by simp
    then show ?thesis
      unfolding to_double_def Let_def s using False
      by (simp add: nearest_even_def)
  qed
qed

lemma double_examples:
  "parseFloat (lit ''0.49999999999999999'') = Fin (1 / 2)"
  "parseFloat (lit ''0.49999999999999994'') = Fin (9007199254740991 / 18014398509481984)"
  "parseFloat (lit ''9007199254740993'') = Fin 9007199254740992"
  "parseInt (lit ''12345678901234567890123'') = Fin 12345678901234567741440"
  "Math_round (parseFloat (lit ''0.49999999999999999'')) = Fin 1"
  "Math_round (parseFloat (lit ''0.49999999999999994'')) = Fin 0"
  "Math_round (parseFloat (lit ''2.5'')) = Fin 3"
  by (simp_all add: number_defs is_digit_def)

lemma to_double_nonneg: "to_double n k = Fin x \<Longrightarrow> 0 \<le> x"
  by (auto simp: to_double_def Let_def split: if_splits)

lemma rounded_score_range:
  assumes "0 < maxScore"
  shows "0 \<le> Math_min (Math_round (parseFloat s)) maxScore
       \<and> Math_min (Math_round (parseFloat s)) maxScore \<le> maxScore"
proof (cases "parseFloat s")
  case (Fin x)
  then have "0 \<le> x"
    unfolding parseFloat_def Let_def by (rule to_double_nonneg)
  then have "0 \<le> \<lfloor>x + 1 / 2\<rfloor>"
    by simp
  with Fin assms show ?thesis
    by (simp add: Math_round_def Math_min_def)
next
  case Infinity
  with assms show ?thesis
    by (simp add: Math_round_def Math_min_def)
qed

lemma parsed_int_range:
  assumes "0 < maxScore"
  shows "0 \<le> Math_min (parseInt s) maxScore \<and> Math_min (parseInt s) maxScore \<le> maxScore"
proof (cases "to_double (digits_val (takeWhile is_digit s)) 0")
  case (Fin x)
  then have "0 \<le> \<lfloor>x\<rfloor>"
    using to_double_nonneg [OF Fin] by simp
  with Fin assms show ?thesis
    by (simp add: parseInt_def Math_min_def)
next
  case Infinity
  with assms show ?thesis
    by (simp add: parseInt_def Math_min_def)
qed

lemma score_scan_range:
  "0 < maxScore \<Longrightarrow> 0 \<le> sc \<Longrightarrow> sc \<le> maxScore \<Longrightarrow>
   0 \<le> score_scan maxScore sc lns \<and> score_scan maxScore sc lns \<le> maxScore"
proof (induction lns arbitrary: sc)
  case Nil
  then show ?case by simp
next
  case (Cons l rest)
  show ?case
  proof (cases "first_pattern_match scorePatterns l")
    case None
    with Cons show ?thesis by (simp add: Let_def)
  next
    case (Some m)
    let ?v = "Math_min (Math_round (parseFloat m)) maxScore"
    have v: "0 \<le> ?v" "?v \<le> maxScore"
      using rounded_score_range [OF Cons.prems(1), of m] by simp_all
    have step: "score_scan maxScore sc (l # rest)
                = (if 0 < ?v then ?v else score_scan maxScore ?v rest)"
      using Some by (simp add: Let_def)
    from Cons.IH [OF Cons.prems(1) v] v show ?thesis
      unfolding step by (cases "0 < ?v") simp_all
  qed
qed

lemma regex_search_digits_None:
  "(regex_search digits_at s = None) = (\<forall>c\<in>set s. \<not> is_digit c)"
  by (induction s) (auto simp: digits_at_def split: option.splits)

lemma fallbackScore_nonneg: "0 < maxScore \<Longrightarrow> 0 \<le> fallbackScore s maxScore"
  using parsed_int_range [of maxScore] by (simp add: fallbackScore_def split: option.splits)

lemma fallbackScore_default:
  "\<forall>c\<in>set s. \<not> is_digit c \<Longrightarrow> fallbackScore s maxScore = 50"
  using regex_search_digits_None [of s]
  by (simp add: fallbackScore_def)

lemma score_try [simp]:
  "score (parseAnalysisResponse_try t maxScore) = extract_score (lines_of t) maxScore"
  "score (parseCodeAnalysisResponse_try t maxScore) = extract_score (lines_of t) maxScore"
  by (simp_all add: parseAnalysisResponse_try_def parseCodeAnalysisResponse_try_def Let_def)

lemma score_catch [simp]:
  "score (parseAnalysisResponse_catch t maxScore) = fallbackScore t maxScore"
  "score (parseCodeAnalysisResponse_catch t maxScore) = fallbackScore t maxScore"
  by (simp_all add: parseAnalysisResponse_catch_def parseCodeAnalysisResponse_catch_def)

lemma parse_outcome [simp]:
  "parseAnalysisResponse Completes t m = parseAnalysisResponse_try t m"
  "parseAnalysisResponse Throws t m = parseAnalysisResponse_catch t m"
  "parseCodeAnalysisResponse Completes t m = parseCodeAnalysisResponse_try t m"
  "parseCodeAnalysisResponse Throws t m = parseCodeAnalysisResponse_catch t m"
  by (simp_all add: parseAnalysisResponse_def parseCodeAnalysisResponse_def)

section \<open>The score\<close>

lemma score_in_range_on_normal_path:
  assumes "0 < maxScore"
  shows "(0 \<le> score (parseAnalysisResponse Completes t maxScore)
            \<and> score (parseAnalysisResponse Completes t maxScore) \<le> maxScore)
       \<and> (0 \<le> score (parseCodeAnalysisResponse Completes t maxScore)
            \<and> score (parseCodeAnalysisResponse Completes t maxScore) \<le> maxScore)"
proof -
  have "0 \<le> extract_score (lines_of t) maxScore \<and> extract_score (lines_of t) maxScore \<le> maxScore"
    unfolding extract_score_def using assms by (intro score_scan_range) simp_all
  then show ?thesis by simp
qed

lemma fallback_with_digit_in_range:
  assumes "0 < maxScore" and "\<exists>c\<in>set t. is_digit c"
  shows "0 \<le> score (parseAnalysisResponse Throws t maxScore)
       \<and> score (parseAnalysisResponse Throws t maxScore) \<le> maxScore"
proof -
  from assms(2) obtain m where "regex_search digits_at t = Some m"
    using regex_search_digits_None [of t] by (cases "regex_search digits_at t") auto
  with parsed_int_range [OF assms(1), of m] show ?thesis
    by (simp add: fallbackScore_def)
qed

text \<open>
  C1 fails on the code. On the normal path the score is in \<open>[0, maxScore]\<close>, as
  the two lemmas above say, and so it is in the exception handler when the reply
  has a digit: \<^verbatim>\<open>Math.min(parseInt(scoreMatch[1]), maxScore)\<close>. The other branch of
  the same expression is the literal 50, with no clamp: when the \<^verbatim>\<open>try\<close> block
  throws on the reply \<^verbatim>\<open>abc\<close> with \<open>maxScore = 10\<close>, the score returned is 50.
\<close>

theorem fallback_score_exceeds_maxScore:
  "score (parseAnalysisResponse Throws (lit ''abc'') 10) = 50
   \<and> score (parseCodeAnalysisResponse Throws (lit ''abc'') 10) = 50
   \<and> \<not> (score (parseAnalysisResponse Throws (lit ''abc'') 10) \<le> 10)
   \<and> \<not> (score (parseCodeAnalysisResponse Throws (lit ''abc'') 10) \<le> 10)"
  by (simp add: fallbackScore_def digits_at_def is_digit_def)

lemma score_scan_no_match:
  "\<forall>l\<in>set lns. first_pattern_match scorePatterns l = None \<Longrightarrow> score_scan maxScore 0 lns = 0"
  by (induction lns) simp_all

text \<open>
  C2, as amended. When no line of the reply matches a score pattern, both parse
  functions return the score 0 on the normal path. The default 50 is the score
  of the exception handler, for a reply without any digit.
\<close>

theorem no_score_token_gives_zero:
  "((\<forall>l\<in>set (lines_of t). first_pattern_match scorePatterns l = None) \<longrightarrow>
      score (parseAnalysisResponse Completes t maxScore) = 0
    \<and> score (parseCodeAnalysisResponse Completes t maxScore) = 0)
   \<and> ((\<forall>c\<in>set t. \<not> is_digit c) \<longrightarrow>
      score (parseAnalysisResponse Throws t maxScore) = 50
    \<and> score (parseCodeAnalysisResponse Throws t maxScore) = 50)"
  by (simp add: extract_score_def score_scan_no_match fallbackScore_default)

theorem no_score_token_gives_zero_witness:
  "lines_of (lit ''hello'') = [lit ''hello'']
   \<and> first_pattern_match scorePatterns (lit ''hello'') = None
   \<and> score (parseAnalysisResponse Completes (lit ''hello'') 100) = 0
   \<and> score (parseCodeAnalysisResponse Completes (lit ''hello'') 100) = 0
   \<and> score (parseAnalysisResponse Throws (lit ''hello'') 100) = 50
   \<and> score (parseCodeAnalysisResponse Throws (lit ''hello'') 100) = 50"
proof -
  have l: "lines_of (lit ''hello'') = [lit ''hello'']"
    by (simp add: lines_of_def trim_def char_defs)
  have n: "first_pattern_match scorePatterns (lit ''hello'') = None"
    by (simp add: match_defs char_defs)
  have a: "\<forall>l\<in>set (lines_of (lit ''hello'')). first_pattern_match scorePatterns l = None"
    by (simp add: lines_of_def trim_def match_defs char_defs)
  have b: "\<forall>c\<in>set (lit ''hello''). \<not> is_digit c"
    by (simp add: is_digit_def)
  from no_score_token_gives_zero [of "lit ''hello''" 100] a b l n
  show ?thesis by blast
qed

text \<open>
  C2 as stated fails: the reply \<^verbatim>\<open>hello\<close> has one line, no pattern matches it, and
  the score returned on the normal path is not 50.
\<close>

theorem no_score_token_not_fifty:
  "lines_of (lit ''hello'') = [lit ''hello'']
   \<and> first_pattern_match scorePatterns (lit ''hello'') = None
   \<and> score (parseAnalysisResponse Completes (lit ''hello'') 100) \<noteq> 50
   \<and> score (parseCodeAnalysisResponse Completes (lit ''hello'') 100) \<noteq> 50"
  by (simp add: extract_score_def lines_of_def trim_def match_defs char_defs)

lemma score_scan_skip:
  "line_score maxScore l = None \<or> line_score maxScore l = Some 0 \<Longrightarrow>
   score_scan maxScore 0 (l # rest) = score_scan maxScore 0 rest"
  by (auto simp: line_score_def Let_def split: option.splits)

lemma score_scan_stop:
  "line_score maxScore l = Some v \<Longrightarrow> 0 < v \<Longrightarrow> score_scan maxScore sc (l # rest) = v"
  by (auto simp: line_score_def Let_def split: option.splits)

lemma line_score_nonneg: "0 < maxScore \<Longrightarrow> line_score maxScore l = Some v \<Longrightarrow> 0 \<le> v"
  using rounded_score_range [of maxScore]
  by (auto simp: line_score_def)

lemma not_positive_cases:
  assumes "0 < maxScore" and "\<not> scores_positive maxScore l"
  shows "line_score maxScore l = None \<or> line_score maxScore l = Some 0"
proof (cases "line_score maxScore l")
  case None
  then show ?thesis by simp
next
  case (Some v)
  with assms(2) have "v \<le> 0" by (simp add: scores_positive_def)
  moreover have "0 \<le> v" using line_score_nonneg [OF assms(1) Some] .
  ultimately show ?thesis using Some by simp
qed

lemma score_scan_find:
  "0 < maxScore \<Longrightarrow>
   score_scan maxScore 0 lns =
     (case find (scores_positive maxScore) lns of
        None \<Rightarrow> 0
      | Some l \<Rightarrow> (case line_score maxScore l of None \<Rightarrow> 0 | Some v \<Rightarrow> v))"
proof (induction lns)
  case Nil
  then show ?case by simp
next
  case (Cons l rest)
  show ?case
  proof (cases "scores_positive maxScore l")
    case True
    then obtain v where v: "line_score maxScore l = Some v" "0 < v"
      by (auto simp: scores_positive_def split: option.splits)
    from score_scan_stop [OF v] True v show ?thesis by simp
  next
    case False
    from score_scan_skip [OF not_positive_cases [OF Cons.prems False]] False
      Cons.IH [OF Cons.prems]
    show ?thesis by simp
  qed
qed

lemma score_scan_after_zeros:
  "0 < maxScore \<Longrightarrow> \<forall>p\<in>set pre. \<not> scores_positive maxScore p \<Longrightarrow>
   score_scan maxScore 0 (pre @ rest) = score_scan maxScore 0 rest"
proof (induction pre)
  case Nil
  then show ?case by simp
next
  case (Cons p pre)
  from Cons.prems have "\<not> scores_positive maxScore p"
    by simp
  from score_scan_skip [OF not_positive_cases [OF Cons.prems(1) this]]
  have "score_scan maxScore 0 ((p # pre) @ rest) = score_scan maxScore 0 (pre @ rest)"
    by simp
  with Cons show ?case by simp
qed

lemmas score_eval = line_score_def match_defs number_defs char_defs

text \<open>
  C3, as amended. The scan goes through the non-empty trimmed lines in order. A
  line that matches no pattern, or whose match rounds to 0, leaves the running
  score at 0 and the scan goes on; a line whose match gives a positive
  \<open>min(round(N), maxScore)\<close> sets the score and ends the scan. So for
  \<open>maxScore > 0\<close> the score is that of the first line with a nonzero value, and 0
  if there is none. With \<open>maxScore = 100\<close>, a reply in which only lines without a
  nonzero value stand before the line \<^verbatim>\<open>SCORE: 150\<close> gives the score 100. The
  last conjuncts run each pattern, the rounding and the splitting into lines on
  examples.
\<close>

theorem score_is_first_nonzero_match:
  "(line_score maxScore l = None \<longrightarrow>
      extract_score (l # rest) maxScore = extract_score rest maxScore)
   \<and> (line_score maxScore l = Some 0 \<longrightarrow>
      extract_score (l # rest) maxScore = extract_score rest maxScore)
   \<and> (\<forall>v. line_score maxScore l = Some v \<and> 0 < v \<longrightarrow>
      extract_score (l # rest) maxScore = v)
   \<and> (0 < maxScore \<longrightarrow>
      score (parseAnalysisResponse Completes t maxScore) =
        (case find (scores_positive maxScore) (lines_of t) of
           None \<Rightarrow> 0
         | Some l \<Rightarrow> (case line_score maxScore l of None \<Rightarrow> 0 | Some v \<Rightarrow> v))
      \<and> score (parseCodeAnalysisResponse Completes t maxScore) =
          score (parseAnalysisResponse Completes t maxScore))
   \<and> (\<forall>pre post. lines_of t = pre @ lit ''SCORE: 150'' # post
          \<and> (\<forall>p\<in>set pre. \<not> scores_positive 100 p) \<longrightarrow>
        score (parseAnalysisResponse Completes t 100) = 100
      \<and> score (parseCodeAnalysisResponse Completes t 100) = 100)
   \<and> line_score 100 (lit ''SCORE: 150'') = Some 100
   \<and> line_score 100 (lit ''score:75.5'') = Some 76
   \<and> line_score 100 (lit ''Rated 3.49/5 overall'') = Some 3
   \<and> line_score 100 (lit ''7 out of 10'') = Some 7
   \<and> line_score 100 (lit ''8 / 10'') = Some 8
   \<and> line_score 100 (lit ''SCORE: 0.49999999999999999'') = Some 1
   \<and> line_score 100 (lit ''SCORE: 0.4'') = Some 0
   \<and> line_score 100 (lit ''no number here'') = None
   \<and> lines_of (lit ''Summary\<newline>\<newline>  SCORE: 0.4  \<newline> 7 out of 10 \<newline>SCORE: 150'')
       = [lit ''Summary'', lit ''SCORE: 0.4'', lit ''7 out of 10'', lit ''SCORE: 150'']
   \<and> score (parseAnalysisResponse Completes
        (lit ''Summary\<newline>\<newline>  SCORE: 0.4  \<newline> 7 out of 10 \<newline>SCORE: 150'') 100) = 7
   \<and> score (parseCodeAnalysisResponse Completes
        (lit ''Summary\<newline>\<newline>  SCORE: 0.4  \<newline> 7 out of 10 \<newline>SCORE: 150'') 100) = 7"
proof -
  have steps: "(line_score maxScore l = None \<longrightarrow>
        extract_score (l # rest) maxScore = extract_score rest maxScore)
     \<and> (line_score maxScore l = Some 0 \<longrightarrow>
        extract_score (l # rest) maxScore = extract_score rest maxScore)
     \<and> (\<forall>v. line_score maxScore l = Some v \<and> 0 < v \<longrightarrow>
        extract_score (l # rest) maxScore = v)"
    using score_scan_skip [of maxScore l rest] score_scan_stop [of maxScore l _ 0 rest]
    by (simp add: extract_score_def)
  have closed: "0 < maxScore \<longrightarrow>
      score (parseAnalysisResponse Completes t maxScore) =
        (case find (scores_positive maxScore) (lines_of t) of
           None \<Rightarrow> 0
         | Some l \<Rightarrow> (case line_score maxScore l of None \<Rightarrow> 0 | Some v \<Rightarrow> v))
      \<and> score (parseCodeAnalysisResponse Completes t maxScore) =
          score (parseAnalysisResponse Completes t maxScore)"
    using score_scan_find [of maxScore "lines_of t"] by (simp add: extract_score_def)
  have e1: "line_score 100 (lit ''SCORE: 150'') = Some 100"
    by (simp add: score_eval)
  have scan: "score_scan 100 0 (pre @ lit ''SCORE: 150'' # post) = 100"
    if "\<forall>p\<in>set pre. \<not> scores_positive 100 p" for pre post
  proof -
    have "score_scan 100 0 (pre @ lit ''SCORE: 150'' # post)
          = score_scan 100 0 (lit ''SCORE: 150'' # post)"
      by (rule score_scan_after_zeros) (use that in simp_all)
    also have "\<dots> = 100"
      by (rule score_scan_stop [OF e1]) simp
    finally show ?thesis .
  qed
  have first: "\<forall>pre post. lines_of t = pre @ lit ''SCORE: 150'' # post
          \<and> (\<forall>p\<in>set pre. \<not> scores_positive 100 p) \<longrightarrow>
        score (parseAnalysisResponse Completes t 100) = 100
      \<and> score (parseCodeAnalysisResponse Completes t 100) = 100"
  proof (intro allI impI, elim conjE)
    fix pre post
    assume l: "lines_of t = pre @ lit ''SCORE: 150'' # post"
      and z: "\<forall>p\<in>set pre. \<not> scores_positive 100 p"
    show "score (parseAnalysisResponse Completes t 100) = 100
        \<and> score (parseCodeAnalysisResponse Completes t 100) = 100"
      unfolding parse_outcome score_try extract_score_def l scan [OF z] by simp
  qed
  have e2: "line_score 100 (lit ''score:75.5'') = Some 76"
    by (simp add: score_eval)
  have e3: "line_score 100 (lit ''Rated 3.49/5 overall'') = Some 3"
    by (simp add: score_eval)
  have e4: "line_score 100 (lit ''7 out of 10'') = Some 7"
    by (simp add: score_eval)
  have e5: "line_score 100 (lit ''8 / 10'') = Some 8"
    by (simp add: score_eval)
  have e6: "line_score 100 (lit ''SCORE: 0.49999999999999999'') = Some 1"
    by (simp add: score_eval)
  have e7: "line_score 100 (lit ''SCORE: 0.4'') = Some 0"
    by (simp add: score_eval)
  have e8: "line_score 100 (lit ''no number here'') = None"
    by (simp add: score_eval)
  have e9: "lines_of (lit ''Summary\<newline>\<newline>  SCORE: 0.4  \<newline> 7 out of 10 \<newline>SCORE: 150'')
       = [lit ''Summary'', lit ''SCORE: 0.4'', lit ''7 out of 10'', lit ''SCORE: 150'']"
    by (simp add: lines_of_def trim_def char_defs)
  have e10: "score (parseAnalysisResponse Completes
        (lit ''Summary\<newline>\<newline>  SCORE: 0.4  \<newline> 7 out of 10 \<newline>SCORE: 150'') 100) = 7"
    by (simp add: extract_score_def lines_of_def trim_def match_defs number_defs char_defs)
  have e11: "score (parseCodeAnalysisResponse Completes
        (lit ''Summary\<newline>\<newline>  SCORE: 0.4  \<newline> 7 out of 10 \<newline>SCORE: 150'') 100) = 7"
    by (simp add: extract_score_def lines_of_def trim_def match_defs number_defs char_defs)
  from steps closed first e1 e2 e3 e4 e5 e6 e7 e8 e9 e10 e11 show ?thesis
    by (intro conjI) (erule conjunct1 | erule conjunct2 [THEN conjunct1]
      | erule conjunct2 [THEN conjunct2] | assumption)+
qed

theorem score_is_first_nonzero_match_witness:
  "lines_of (lit ''Summary\<newline>\<newline>SCORE: 0.4\<newline>SCORE: 150'')
     = [lit ''Summary'', lit ''SCORE: 0.4''] @ lit ''SCORE: 150'' # []
   \<and> \<not> scores_positive 100 (lit ''Summary'')
   \<and> \<not> scores_positive 100 (lit ''SCORE: 0.4'')
   \<and> score (parseAnalysisResponse Completes
        (lit ''Summary\<newline>\<newline>SCORE: 0.4\<newline>SCORE: 150'') 100) = 100
   \<and> score (parseCodeAnalysisResponse Completes
        (lit ''Summary\<newline>\<newline>SCORE: 0.4\<newline>SCORE: 150'') 100) = 100
   \<and> line_score 100 (lit ''SCORE: 0.4'') = Some 0
   \<and> extract_score [lit ''SCORE: 0.4'', lit ''7 out of 10''] 100 = 7"
proof -
  let ?t = "lit ''Summary\<newline>\<newline>SCORE: 0.4\<newline>SCORE: 150''"
  have l: "lines_of ?t = [lit ''Summary'', lit ''SCORE: 0.4''] @ lit ''SCORE: 150'' # []"
    by (simp add: lines_of_def trim_def char_defs)
  have z1: "\<not> scores_positive 100 (lit ''Summary'')"
    by (simp add: scores_positive_def score_eval)
  have z2: "\<not> scores_positive 100 (lit ''SCORE: 0.4'')"
    by (simp add: scores_positive_def score_eval)
  have z: "\<forall>p\<in>set [lit ''Summary'', lit ''SCORE: 0.4'']. \<not> scores_positive 100 p"
    using z1 z2 by simp
  note th = score_is_first_nonzero_match [where t = ?t and maxScore = 100
      and l = "lit ''SCORE: 0.4''" and rest = "[lit ''7 out of 10'']"]
  note first = th [THEN conjunct2, THEN conjunct2, THEN conjunct2, THEN conjunct2,
      THEN conjunct1, rule_format, OF conjI [OF l z]]
  note zero = th [THEN conjunct2, THEN conjunct2, THEN conjunct2, THEN conjunct2,
      THEN conjunct2, THEN conjunct2, THEN conjunct2, THEN conjunct2,
      THEN conjunct2, THEN conjunct2, THEN conjunct2, THEN conjunct1]
  note skip = th [THEN conjunct2, THEN conjunct1, THEN mp, OF zero]
  have seven: "line_score 100 (lit ''7 out of 10'') = Some 7 \<and> (0::int) < 7"
    by (simp add: score_eval)
  note stop = score_is_first_nonzero_match [where maxScore = 100
      and l = "lit ''7 out of 10''" and rest = "[]",
      THEN conjunct2, THEN conjunct2, THEN conjunct1, THEN spec, THEN mp, OF seven]
  from skip stop have e: "extract_score [lit ''SCORE: 0.4'', lit ''7 out of 10''] 100 = 7"
    by (rule trans)
  from l z1 z2 first [THEN conjunct1] first [THEN conjunct2] zero e show ?thesis
    by (intro conjI)
qed

text \<open>
  C3 as stated fails in its last sentence: a reply that contains
  \<^verbatim>\<open>SCORE: 150\<close> does not parse to 100 when an earlier line, or an earlier match
  in the same line, sets the score first.
\<close>

theorem earlier_match_wins_over_score_150:
  "score (parseAnalysisResponse Completes (lit ''Rated 3/5\<newline>SCORE: 150'') 100) = 3
   \<and> score (parseCodeAnalysisResponse Completes (lit ''Rated 3/5\<newline>SCORE: 150'') 100) = 3
   \<and> score (parseAnalysisResponse Completes (lit ''score: 0 then SCORE: 150'') 100) = 0"
  by (simp add: extract_score_def lines_of_def trim_def match_defs number_defs char_defs)

section \<open>Feedback\<close>

lemma findIndex_None: "findIndex p xs = None \<Longrightarrow> dropWhile (\<lambda>x. \<not> p x) xs = []"
  by (induction xs) (auto split: if_splits)

lemma findIndex_Some:
  "findIndex p xs = Some i \<Longrightarrow> dropWhile (\<lambda>x. \<not> p x) xs = xs ! i # drop (i + 1) xs"
  by (induction xs arbitrary: i) (auto split: if_splits)

lemma findIndex_Some_set: "findIndex p xs = Some i \<Longrightarrow> xs ! i \<in> set xs \<and> p (xs ! i)"
  by (induction xs arbitrary: i) (auto split: if_splits)

lemma feedback_loop_takeWhile: "feedback_loop stop ls = takeWhile (\<lambda>l. \<not> stop l) ls"
  by (induction ls) simp_all

lemma remove_marker_at_start:
  "ci_starts marker l \<Longrightarrow> marker \<noteq> [] \<Longrightarrow>
   remove_marker marker l = dropWhile is_space (drop (length marker) l)"
  by (cases l) (auto simp: ci_starts_def)

lemma extract_feedback_text:
  assumes "\<forall>l\<in>set lns. has_marker (lit ''feedback:'') l \<longrightarrow> ci_starts (lit ''feedback:'') l"
  shows "extract_feedback stop lns = feedback_text stop lns"
proof (cases "findIndex (has_marker (lit ''feedback:'')) lns")
  case None
  show ?thesis
    unfolding extract_feedback_def feedback_text_def None findIndex_None [OF None] by simp
next
  case (Some i)
  from findIndex_Some_set [OF Some] assms have ci: "ci_starts (lit ''feedback:'') (lns ! i)"
    by blast
  have len: "length (lit ''feedback:'') = 9"
    by simp
  have "lit ''feedback:'' \<noteq> []"
    by simp
  from remove_marker_at_start [OF ci this, unfolded len]
  have rm: "remove_marker (lit ''feedback:'') (lns ! i) = dropWhile is_space (drop 9 (lns ! i))" .
  show ?thesis
    unfolding extract_feedback_def feedback_text_def Some findIndex_Some [OF Some]
    using rm by (simp add: feedback_loop_takeWhile Let_def)
qed

lemma feedback_try:
  "feedback (parseAnalysisResponse_try t m) =
     (if extract_feedback feedback_stop (lines_of t) \<noteq> []
      then extract_feedback feedback_stop (lines_of t)
      else lit ''Analysis completed successfully'')"
  "feedback (parseCodeAnalysisResponse_try t m) =
     (if extract_feedback code_feedback_stop (lines_of t) \<noteq> []
      then extract_feedback code_feedback_stop (lines_of t)
      else lit ''Code analysis completed successfully'')"
  by (simp_all add: parseAnalysisResponse_try_def parseCodeAnalysisResponse_try_def Let_def
      del: list.map)

text \<open>
  C4, as amended. The feedback is made of the first line that starts with
  \<^verbatim>\<open>feedback:\<close> (in ASCII letters of either case), without that prefix and the
  white space after it, and of the lines after it up to, and without, the first
  line that starts with \<^verbatim>\<open>strengths:\<close>, \<^verbatim>\<open>improvements:\<close> or \<^verbatim>\<open>score:\<close> (generic
  variant), or with \<^verbatim>\<open>strengths:\<close>, \<^verbatim>\<open>improvements:\<close>, \<^verbatim>\<open>corrected_code:\<close>,
  \<^verbatim>\<open>optimized_code:\<close> or \<^verbatim>\<open>code_issues:\<close> (code variant); they are joined with
  spaces and trimmed, and an empty feedback is replaced by the variant's default
  sentence.
\<close>

theorem feedback_is_first_feedback_section:
  assumes "\<forall>l\<in>set (lines_of t).
             has_marker (lit ''feedback:'') l \<longrightarrow> ci_starts (lit ''feedback:'') l"
  shows "feedback (parseAnalysisResponse Completes t maxScore) =
           (if feedback_text feedback_stop (lines_of t) \<noteq> []
            then feedback_text feedback_stop (lines_of t)
            else lit ''Analysis completed successfully'')
       \<and> feedback (parseCodeAnalysisResponse Completes t maxScore) =
           (if feedback_text code_feedback_stop (lines_of t) \<noteq> []
            then feedback_text code_feedback_stop (lines_of t)
            else lit ''Code analysis completed successfully'')"
  unfolding parse_outcome feedback_try extract_feedback_text [OF assms] by (rule conjI; rule refl)


lemmas feedback_eval =
  parseAnalysisResponse_try_def parseCodeAnalysisResponse_try_def feedback_stop_def
  code_feedback_stop_def section_defs lines_of_def startsWith_def ci_starts_def char_defs Let_def

theorem feedback_is_first_feedback_section_witness:
  "feedback (parseAnalysisResponse Completes
      (lit ''Feedback:   nice work\<newline>keep going\<newline>STRENGTHS:\<newline>- a'') 100)
     = lit ''nice work keep going''
   \<and> feedback (parseCodeAnalysisResponse Completes
      (lit ''Feedback:   nice work\<newline>keep going\<newline>STRENGTHS:\<newline>- a'') 100)
     = lit ''nice work keep going''"
proof -
  let ?t = "lit ''Feedback:   nice work\<newline>keep going\<newline>STRENGTHS:\<newline>- a''"
  have h: "\<forall>l\<in>set (lines_of ?t).
             has_marker (lit ''feedback:'') l \<longrightarrow> ci_starts (lit ''feedback:'') l"
    by (simp add: feedback_eval)
  have a: "feedback_text feedback_stop (lines_of ?t) = lit ''nice work keep going''"
    by (simp add: feedback_text_def feedback_eval)
  have b: "feedback_text code_feedback_stop (lines_of ?t) = lit ''nice work keep going''"
    by (simp add: feedback_text_def feedback_eval)
  note th = feedback_is_first_feedback_section [OF h, where maxScore = 100, unfolded a b]
  from th show ?thesis
    by simp
qed

text \<open>
  C4 as stated fails: a \<^verbatim>\<open>CATEGORY:\<close> header line after the feedback line does not
  end the feedback, it becomes part of it.
\<close>

theorem feedback_includes_category_header:
  "has_marker (lit ''category:'') (lit ''CATEGORY: essay'')
   \<and> feedback (parseAnalysisResponse Completes
        (lit ''FEEDBACK: good\<newline>CATEGORY: essay\<newline>STRENGTHS:\<newline>- a'') 100)
       = lit ''good CATEGORY: essay''
   \<and> feedback (parseCodeAnalysisResponse Completes
        (lit ''FEEDBACK: good\<newline>CATEGORY: essay\<newline>STRENGTHS:\<newline>- a'') 100)
       = lit ''good CATEGORY: essay''"
  by (simp add: feedback_eval extract_score_def extract_issues_def extract_code_def)

section \<open>Strengths and improvements\<close>

lemma bullet_loop_filter:
  "bullet_loop stop ls = map strip_bullet (filter is_bullet (takeWhile (\<lambda>l. \<not> stop l) ls))"
  by (induction ls) simp_all

lemma extract_bullets_section:
  "extract_bullets marker stop lns =
     map strip_bullet (filter is_bullet (section_after marker stop lns))"
proof (cases "findIndex (has_marker marker) lns")
  case None
  show ?thesis
    unfolding extract_bullets_def section_after_def None findIndex_None [OF None] by simp
next
  case (Some i)
  show ?thesis
    unfolding extract_bullets_def section_after_def Some findIndex_Some [OF Some]
    by (simp add: bullet_loop_filter)
qed

lemma bullets_try:
  "strengths (parseAnalysisResponse_try t m) =
     (if extract_bullets (lit ''strengths:'') (has_marker (lit ''improvements:'')) (lines_of t) = []
      then [lit ''Text structure is present'']
      else extract_bullets (lit ''strengths:'') (has_marker (lit ''improvements:'')) (lines_of t))"
  "improvements (parseAnalysisResponse_try t m) =
     (if extract_bullets (lit ''improvements:'') (\<lambda>l. False) (lines_of t) = []
      then [lit ''Consider reviewing for clarity'']
      else extract_bullets (lit ''improvements:'') (\<lambda>l. False) (lines_of t))"
  "strengths (parseCodeAnalysisResponse_try t m) =
     (if extract_bullets (lit ''strengths:'') code_strengths_stop (lines_of t) = []
      then [lit ''Code structure is present'']
      else extract_bullets (lit ''strengths:'') code_strengths_stop (lines_of t))"
  "improvements (parseCodeAnalysisResponse_try t m) =
     (if extract_bullets (lit ''improvements:'') code_section_start (lines_of t) = []
      then [lit ''Consider reviewing for best practices'']
      else extract_bullets (lit ''improvements:'') code_section_start (lines_of t))"
  by (simp_all add: parseAnalysisResponse_try_def parseCodeAnalysisResponse_try_def Let_def
      del: list.map)

lemma dropWhile_class_body:
  assumes "\<forall>c\<in>set pre. in_bullet_class c" "item = [] \<or> \<not> in_bullet_class (hd item)"
  shows "dropWhile in_bullet_class (pre @ item) = item"
proof -
  have "dropWhile in_bullet_class (pre @ item) = dropWhile in_bullet_class item"
    using assms(1) by (simp add: dropWhile_append2)
  also have "\<dots> = item"
    using assms(2) by (cases item) auto
  finally show ?thesis .
qed

lemma strip_bullet_marker:
  assumes mk: "mk = lit ''-'' \<or> mk = [bullet_char]
               \<or> (\<exists>ds. ds \<noteq> [] \<and> (\<forall>d\<in>set ds. is_digit d) \<and> mk = ds @ lit ''.'')"
    and w: "\<forall>c\<in>set w. is_space c"
    and item: "item = [] \<or> \<not> in_bullet_class (hd item)"
  shows "is_bullet (mk @ w @ item) \<and> strip_bullet (mk @ w @ item) = trim item"
proof
  from mk show "is_bullet (mk @ w @ item)"
  proof (elim disjE exE conjE)
    fix ds assume ds: "ds \<noteq> []" "\<forall>d\<in>set ds. is_digit d" "mk = ds @ lit ''.''"
    have "takeWhile is_digit (ds @ 46 # w @ item) = ds"
      using ds(2) by (simp add: takeWhile_append2 is_digit_def)
    moreover have "dropWhile is_digit (ds @ 46 # w @ item) = 46 # w @ item"
      using ds(2) by (simp add: dropWhile_append2 is_digit_def)
    ultimately show ?thesis
      using ds(1,3) by (simp add: is_bullet_def startsWith_def)
  qed (simp_all add: is_bullet_def startsWith_def)
next
  have "\<forall>c\<in>set (mk @ w). in_bullet_class c"
    using mk w by (auto simp: in_bullet_class_def)
  from dropWhile_class_body [OF this item] show "strip_bullet (mk @ w @ item) = trim item"
    by (simp add: strip_bullet_def)
qed

text \<open>
  C5, as amended. A section is what the parser scans: the lines after the first
  \<^verbatim>\<open>strengths:\<close> line up to the next \<^verbatim>\<open>improvements:\<close> line (generic variant) or
  the next \<^verbatim>\<open>improvements:\<close>, \<^verbatim>\<open>corrected_code:\<close>, \<^verbatim>\<open>optimized_code:\<close> or
  \<^verbatim>\<open>code_issues:\<close> line (code variant); the lines after the first
  \<^verbatim>\<open>improvements:\<close> line to the end of the reply (generic variant) or up to the
  next \<^verbatim>\<open>corrected_code:\<close>, \<^verbatim>\<open>optimized_code:\<close> or \<^verbatim>\<open>code_issues:\<close> line (code
  variant). Exactly the lines of the section that begin with \<^verbatim>\<open>-\<close>, the bullet
  or digits and a dot are collected, in order, each through \<open>strip_bullet\<close>. For a
  line made of such a marker, white space and a text that is empty or begins with
  none of \<^verbatim>\<open>-\<close>, the bullet, a dot, a digit or white space, the item is that
  text, trimmed.
\<close>

theorem bullets_of_section:
  "strengths (parseAnalysisResponse Completes t maxScore) =
     (let items = map strip_bullet (filter is_bullet
            (section_after (lit ''strengths:'') (has_marker (lit ''improvements:'')) (lines_of t)))
      in if items = [] then [lit ''Text structure is present''] else items)
   \<and> improvements (parseAnalysisResponse Completes t maxScore) =
     (let items = map strip_bullet (filter is_bullet
            (section_after (lit ''improvements:'') (\<lambda>l. False) (lines_of t)))
      in if items = [] then [lit ''Consider reviewing for clarity''] else items)
   \<and> strengths (parseCodeAnalysisResponse Completes t maxScore) =
     (let items = map strip_bullet (filter is_bullet
            (section_after (lit ''strengths:'') code_strengths_stop (lines_of t)))
      in if items = [] then [lit ''Code structure is present''] else items)
   \<and> improvements (parseCodeAnalysisResponse Completes t maxScore) =
     (let items = map strip_bullet (filter is_bullet
            (section_after (lit ''improvements:'') code_section_start (lines_of t)))
      in if items = [] then [lit ''Consider reviewing for best practices''] else items)
   \<and> ((mk = lit ''-'' \<or> mk = [bullet_char]
          \<or> (\<exists>ds. ds \<noteq> [] \<and> (\<forall>d\<in>set ds. is_digit d) \<and> mk = ds @ lit ''.''))
        \<and> (\<forall>c\<in>set w. is_space c) \<and> (item = [] \<or> \<not> in_bullet_class (hd item))
      \<longrightarrow> is_bullet (mk @ w @ item) \<and> strip_bullet (mk @ w @ item) = trim item)"
  unfolding parse_outcome bullets_try extract_bullets_section Let_def
  using strip_bullet_marker [of mk w item] by (intro conjI impI refl) blast+


lemmas section_eval =
  section_after_def feedback_stop_def code_feedback_stop_def code_strengths_stop_def
  code_section_start_def section_defs lines_of_def startsWith_def ci_starts_def char_defs Let_def

lemmas parse_try_defs = parseAnalysisResponse_try_def parseCodeAnalysisResponse_try_def

theorem bullets_of_section_witness:
  "strengths (parseAnalysisResponse Completes
      (lit ''STRENGTHS:\<newline>- clear\<newline>2. short\<newline>note\<newline>IMPROVEMENTS:\<newline>- typos'') 100)
     = [lit ''clear'', lit ''short'']
   \<and> improvements (parseCodeAnalysisResponse Completes
      (lit ''STRENGTHS:\<newline>- clear\<newline>2. short\<newline>note\<newline>IMPROVEMENTS:\<newline>- typos'') 100)
     = [lit ''typos'']
   \<and> strip_bullet (lit ''- clear'') = lit ''clear''"
proof -
  note th = bullets_of_section
    [where t = "lit ''STRENGTHS:\<newline>- clear\<newline>2. short\<newline>note\<newline>IMPROVEMENTS:\<newline>- typos''"
       and maxScore = 100 and mk = "lit ''-''" and w = "lit '' ''" and item = "lit ''clear''"]
  have "section_after (lit ''strengths:'') (has_marker (lit ''improvements:''))
          (lines_of (lit ''STRENGTHS:\<newline>- clear\<newline>2. short\<newline>note\<newline>IMPROVEMENTS:\<newline>- typos''))
        = [lit ''- clear'', lit ''2. short'', lit ''note'']"
    by (simp add: section_eval)
  moreover have "section_after (lit ''improvements:'') code_section_start
          (lines_of (lit ''STRENGTHS:\<newline>- clear\<newline>2. short\<newline>note\<newline>IMPROVEMENTS:\<newline>- typos''))
        = [lit ''- typos'']"
    by (simp add: section_eval)
  ultimately show ?thesis
    using th by (simp add: section_eval)
qed

text \<open>
  C5 as stated fails twice. The generic variant collects improvements to the end
  of the reply, through a later \<^verbatim>\<open>STRENGTHS:\<close> header; and the item of the line
  \<^verbatim>\<open>- 3 tests pass\<close> has lost its \<^verbatim>\<open>3\<close> with the marker.
\<close>

theorem bullets_overrun_and_overstrip:
  "improvements (parseAnalysisResponse Completes
      (lit ''IMPROVEMENTS:\<newline>- a\<newline>STRENGTHS:\<newline>- b'') 100) = [lit ''a'', lit ''b'']
   \<and> strengths (parseAnalysisResponse Completes
      (lit ''STRENGTHS:\<newline>- 3 tests pass'') 100) = [lit ''tests pass'']
   \<and> strengths (parseCodeAnalysisResponse Completes
      (lit ''STRENGTHS:\<newline>- 3 tests pass'') 100) = [lit ''tests pass'']"
  by (simp add: parse_try_defs section_eval)

lemma no_bullets_empty:
  "\<forall>l\<in>set (section_after marker stop lns). \<not> is_bullet l \<Longrightarrow>
   extract_bullets marker stop lns = []"
  by (simp add: extract_bullets_section filter_empty_conv)

lemma lists_catch:
  "strengths (parseAnalysisResponse_catch t m) \<noteq> []"
  "improvements (parseAnalysisResponse_catch t m) \<noteq> []"
  "strengths (parseCodeAnalysisResponse_catch t m) \<noteq> []"
  "improvements (parseCodeAnalysisResponse_catch t m) \<noteq> []"
  by (simp_all add: parseAnalysisResponse_catch_def parseCodeAnalysisResponse_catch_def)

lemma lists_try:
  "strengths (parseAnalysisResponse_try t m) \<noteq> []"
  "improvements (parseAnalysisResponse_try t m) \<noteq> []"
  "strengths (parseCodeAnalysisResponse_try t m) \<noteq> []"
  "improvements (parseCodeAnalysisResponse_try t m) \<noteq> []"
  unfolding bullets_try by (simp_all del: list.map)

text \<open>
  C7, as amended. A section is the range of lines the parser scans for it, as in
  \<open>section_after\<close>: it ends at the markers that break the loop, not at every
  section marker. When no line of the strengths section (of the improvements
  section) is a bullet line, which includes a reply without the section, the
  returned list is the variant's one placeholder. The two lists are never empty,
  on the normal path and in the exception handler.
\<close>

theorem placeholder_when_no_bullets:
  "((\<forall>l\<in>set (section_after (lit ''strengths:'') (has_marker (lit ''improvements:'')) (lines_of t)).
        \<not> is_bullet l) \<longrightarrow>
      strengths (parseAnalysisResponse Completes t maxScore) = [lit ''Text structure is present''])
   \<and> ((\<forall>l\<in>set (section_after (lit ''improvements:'') (\<lambda>l. False) (lines_of t)).
        \<not> is_bullet l) \<longrightarrow>
      improvements (parseAnalysisResponse Completes t maxScore)
        = [lit ''Consider reviewing for clarity''])
   \<and> ((\<forall>l\<in>set (section_after (lit ''strengths:'') code_strengths_stop (lines_of t)).
        \<not> is_bullet l) \<longrightarrow>
      strengths (parseCodeAnalysisResponse Completes t maxScore) = [lit ''Code structure is present''])
   \<and> ((\<forall>l\<in>set (section_after (lit ''improvements:'') code_section_start (lines_of t)).
        \<not> is_bullet l) \<longrightarrow>
      improvements (parseCodeAnalysisResponse Completes t maxScore)
        = [lit ''Consider reviewing for best practices''])
   \<and> strengths (parseAnalysisResponse oc t maxScore) \<noteq> []
   \<and> improvements (parseAnalysisResponse oc t maxScore) \<noteq> []
   \<and> strengths (parseCodeAnalysisResponse oc t maxScore) \<noteq> []
   \<and> improvements (parseCodeAnalysisResponse oc t maxScore) \<noteq> []"
proof -
  have ne: "strengths (parseAnalysisResponse oc t maxScore) \<noteq> []"
    "improvements (parseAnalysisResponse oc t maxScore) \<noteq> []"
    "strengths (parseCodeAnalysisResponse oc t maxScore) \<noteq> []"
    "improvements (parseCodeAnalysisResponse oc t maxScore) \<noteq> []"
    by (cases oc; simp only: parse_outcome lists_try lists_catch not_False_eq_True)+
  have s1: "(\<forall>l\<in>set (section_after (lit ''strengths:'') (has_marker (lit ''improvements:''))
               (lines_of t)). \<not> is_bullet l) \<longrightarrow>
      strengths (parseAnalysisResponse Completes t maxScore) = [lit ''Text structure is present'']"
    unfolding parse_outcome bullets_try by (rule impI) (simp only: no_bullets_empty if_True simp_thms)
  have s2: "(\<forall>l\<in>set (section_after (lit ''improvements:'') (\<lambda>l. False) (lines_of t)).
        \<not> is_bullet l) \<longrightarrow>
      improvements (parseAnalysisResponse Completes t maxScore)
        = [lit ''Consider reviewing for clarity'']"
    unfolding parse_outcome bullets_try by (rule impI) (simp only: no_bullets_empty if_True simp_thms)
  have s3: "(\<forall>l\<in>set (section_after (lit ''strengths:'') code_strengths_stop (lines_of t)).
        \<not> is_bullet l) \<longrightarrow>
      strengths (parseCodeAnalysisResponse Completes t maxScore) = [lit ''Code structure is present'']"
    unfolding parse_outcome bullets_try by (rule impI) (simp only: no_bullets_empty if_True simp_thms)
  have s4: "(\<forall>l\<in>set (section_after (lit ''improvements:'') code_section_start (lines_of t)).
        \<not> is_bullet l) \<longrightarrow>
      improvements (parseCodeAnalysisResponse Completes t maxScore)
        = [lit ''Consider reviewing for best practices'']"
    unfolding parse_outcome bullets_try by (rule impI) (simp only: no_bullets_empty if_True simp_thms)
  from s1 s2 s3 s4 ne show ?thesis
    by (intro conjI)
qed

theorem placeholder_when_no_bullets_witness:
  "strengths (parseAnalysisResponse Completes
      (lit ''STRENGTHS:\<newline>none worth naming\<newline>IMPROVEMENTS:\<newline>- typos'') 100)
     = [lit ''Text structure is present'']
   \<and> improvements (parseCodeAnalysisResponse Completes
      (lit ''STRENGTHS:\<newline>none worth naming'') 100)
     = [lit ''Consider reviewing for best practices'']
   \<and> strengths (parseCodeAnalysisResponse Throws (lit ''STRENGTHS:'') 100) \<noteq> []"
proof -
  have a: "\<forall>l\<in>set (section_after (lit ''strengths:'') (has_marker (lit ''improvements:''))
            (lines_of (lit ''STRENGTHS:\<newline>none worth naming\<newline>IMPROVEMENTS:\<newline>- typos''))).
          \<not> is_bullet l"
    by (simp add: section_eval)
  have b: "\<forall>l\<in>set (section_after (lit ''improvements:'') code_section_start
            (lines_of (lit ''STRENGTHS:\<newline>none worth naming''))).
          \<not> is_bullet l"
    by (simp add: section_eval)
  note s = placeholder_when_no_bullets
    [where t = "lit ''STRENGTHS:\<newline>none worth naming\<newline>IMPROVEMENTS:\<newline>- typos''"
       and maxScore = 100, THEN conjunct1, THEN mp, OF a]
  note i = placeholder_when_no_bullets
    [where t = "lit ''STRENGTHS:\<newline>none worth naming''" and maxScore = 100,
      THEN conjunct2, THEN conjunct2, THEN conjunct2, THEN conjunct1, THEN mp, OF b]
  note n = placeholder_when_no_bullets
    [where t = "lit ''STRENGTHS:''" and maxScore = 100 and oc = Throws,
      THEN conjunct2, THEN conjunct2, THEN conjunct2, THEN conjunct2,
      THEN conjunct2, THEN conjunct2, THEN conjunct1]
  from s i n show ?thesis
    by (intro conjI)
qed

text \<open>
  C7 as stated fails when the section is read as ending at the next section
  marker: a strengths section with no bullet line, closed by a \<^verbatim>\<open>FEEDBACK:\<close> line,
  does not give the placeholder if a bullet line follows before
  \<^verbatim>\<open>IMPROVEMENTS:\<close>; and the generic variant collects improvements from a later
  strengths section.
\<close>

theorem bullets_after_another_header_are_collected:
  "\<not> is_bullet (lit ''none'')
   \<and> has_marker (lit ''feedback:'') (lit ''FEEDBACK: fine'')
   \<and> strengths (parseAnalysisResponse Completes
        (lit ''STRENGTHS:\<newline>none\<newline>FEEDBACK: fine\<newline>- x\<newline>IMPROVEMENTS:\<newline>- y'') 100)
       = [lit ''x'']
   \<and> strengths (parseCodeAnalysisResponse Completes
        (lit ''STRENGTHS:\<newline>none\<newline>FEEDBACK: fine\<newline>- x\<newline>IMPROVEMENTS:\<newline>- y'') 100)
       = [lit ''x'']
   \<and> improvements (parseAnalysisResponse Completes
        (lit ''IMPROVEMENTS:\<newline>none\<newline>STRENGTHS:\<newline>- good'') 100)
       = [lit ''good'']"
  by (simp add: parse_try_defs section_eval)

section \<open>Code issues\<close>

lemmas issue_defs =
  extract_issues_def issue_at_def issue_tail_def word_at_def expect_ci_def line_group_at_def
  description_at_def suggestion_at_def

text \<open>
  C6 fails on the code. The pattern takes any word for \<^verbatim>\<open>TYPE\<close> and \<^verbatim>\<open>SEVERITY\<close>, and
  the parser casts the lower-cased words to the enumerations of \<^verbatim>\<open>CodeIssue\<close>
  without looking at them: an issue line with the type \<^verbatim>\<open>bug\<close> and the severity
  \<^verbatim>\<open>major\<close> is returned, not dropped.
\<close>

theorem issue_with_unknown_type_is_kept:
  "codeIssues (parseCodeAnalysisResponse Completes
      (lit ''CODE_ISSUES:\<newline>- TYPE: bug | SEVERITY: major | LINE: 3 | DESCRIPTION: off by one | SUGGESTION: use <='')
      100)
     = Some [\<lparr>type = lit ''bug'', line = Some (Fin 3), description = lit ''off by one'',
              severity = lit ''major'', suggestion = lit ''use <=''\<rparr>]"
  by (simp add: parseCodeAnalysisResponse_try_def issue_defs section_eval number_defs)

section \<open>Corrected and optimized code\<close>

lemma regex_search_hit: "pat s = Some m \<Longrightarrow> regex_search pat s = Some m"
  by (cases s) simp_all

lemma regex_search_skip:
  "\<forall>p<n. pat (drop p s) = None \<Longrightarrow> n \<le> length s \<Longrightarrow>
   regex_search pat s = regex_search pat (drop n s)"
proof (induction s arbitrary: n)
  case Nil
  then show ?case by simp
next
  case (Cons c cs)
  show ?case
  proof (cases n)
    case 0
    then show ?thesis by simp
  next
    case (Suc k)
    from Cons.prems(1) Suc have "pat (drop 0 (c # cs)) = None"
      by blast
    then have h: "pat (c # cs) = None" by simp
    have "\<forall>p<k. pat (drop p cs) = None"
    proof (intro allI impI)
      fix p assume "p < k"
      with Suc have "Suc p < n" by simp
      with Cons.prems(1) have "pat (drop (Suc p) (c # cs)) = None" by blast
      then show "pat (drop p cs) = None" by simp
    qed
    from Cons.IH [OF this] Cons.prems(2) Suc h show ?thesis by simp
  qed
qed

lemma startsWith_append:
  "length p \<le> length xs \<Longrightarrow> startsWith p (xs @ ys) = startsWith p xs"
  by (simp add: startsWith_def)

lemma until_fence_inner:
  "\<forall>p<length inner. \<not> startsWith fence (drop p (inner @ fence)) \<Longrightarrow>
   until_fence (inner @ fence @ post) = Some inner"
proof (induction inner)
  case Nil
  then show ?case by (simp add: fence_def startsWith_def)
next
  case (Cons c cs)
  from Cons.prems have "\<not> startsWith fence (drop 0 ((c # cs) @ fence))"
    by (metis length_greater_0_conv list.distinct(1))
  moreover have "startsWith fence (((c # cs) @ fence) @ post) = startsWith fence ((c # cs) @ fence)"
    by (rule startsWith_append) (simp add: fence_def)
  ultimately have h: "\<not> startsWith fence (c # cs @ fence @ post)"
    by simp
  have "\<forall>p<length cs. \<not> startsWith fence (drop p (cs @ fence))"
  proof (intro allI impI)
    fix p assume "p < length cs"
    then have "Suc p < length (c # cs)" by simp
    with Cons.prems have "\<not> startsWith fence (drop (Suc p) ((c # cs) @ fence))" by blast
    then show "\<not> startsWith fence (drop p (cs @ fence))" by simp
  qed
  from Cons.IH [OF this] h show ?case by simp
qed

lemma code_block_at_found:
  assumes mk: "map canon mk = map canon marker"
    and ws: "\<forall>c\<in>set ws. is_space c"
    and tag: "\<forall>c\<in>set tag. is_word c"
    and inner: "\<forall>p<length inner. \<not> startsWith fence (drop p (inner @ fence))"
  shows "code_block_at marker (mk @ ws @ fence @ tag @ [10] @ inner @ fence @ post) = Some inner"
proof -
  let ?r = "inner @ fence @ post"
  from mk have len: "length mk = length marker"
    by (rule map_eq_imp_length_eq)
  have ci: "ci_starts marker (mk @ ws @ fence @ tag @ 10 # ?r)"
    using mk len by (simp add: ci_starts_def)
  have r0: "drop (length marker) (mk @ ws @ fence @ tag @ 10 # ?r) = ws @ fence @ tag @ 10 # ?r"
    using len by simp
  have r1: "dropWhile is_space (ws @ fence @ tag @ 10 # ?r) = fence @ tag @ 10 # ?r"
    using ws by (simp add: dropWhile_append2 fence_def is_space_def is_line_terminator_def)
  have r2: "dropWhile is_word (tag @ 10 # ?r) = 10 # ?r"
    using tag by (simp add: dropWhile_append2 is_word_def is_digit_def)
  have r3: "startsWith fence (fence @ tag @ 10 # ?r)"
    by (simp add: startsWith_def)
  have r4: "drop 3 (fence @ tag @ 10 # ?r) = tag @ 10 # ?r"
    by (simp add: fence_def)
  have "code_block_at marker (mk @ ws @ fence @ tag @ 10 # ?r) = Some inner"
    unfolding code_block_at_def Let_def r0 r1 r4 r2
    using ci r3 until_fence_inner [OF inner, of post] by simp
  then show ?thesis by simp
qed


lemma code_try:
  "correctedCode (parseCodeAnalysisResponse_try t m) =
     (if extract_code (lit ''CORRECTED_CODE:'') t \<noteq> []
      then Some (extract_code (lit ''CORRECTED_CODE:'') t) else None)"
  "optimizedCode (parseCodeAnalysisResponse_try t m) =
     (if extract_code (lit ''OPTIMIZED_CODE:'') t \<noteq> []
      then Some (extract_code (lit ''OPTIMIZED_CODE:'') t) else None)"
  "codeIssues (parseCodeAnalysisResponse_try t m) =
     (if extract_issues (lines_of t) = [] then None else Some (extract_issues (lines_of t)))"
  by (simp_all add: parseCodeAnalysisResponse_try_def Let_def del: list.map)

lemma until_fence_Some:
  "until_fence r = Some inner \<Longrightarrow>
   \<exists>post. r = inner @ fence @ post
          \<and> (\<forall>p<length inner. \<not> startsWith fence (drop p (inner @ fence)))"
proof (induction r arbitrary: inner)
  case Nil
  then show ?case by simp
next
  case (Cons c cs)
  show ?case
  proof (cases "startsWith fence (c # cs)")
    case True
    with Cons.prems have "inner = []"
      by simp
    moreover from True have "c # cs = fence @ drop 3 (c # cs)"
      by (metis append_take_drop_id fence_def length_Cons list.size(3) length_map
          numeral_3_eq_3 startsWith_def)
    ultimately show ?thesis
      by auto
  next
    case False
    with Cons.prems obtain inner' where i: "until_fence cs = Some inner'" "inner = c # inner'"
      by auto
    from Cons.IH [OF i(1)] obtain post where post: "cs = inner' @ fence @ post"
      and free: "\<forall>p<length inner'. \<not> startsWith fence (drop p (inner' @ fence))"
      by blast
    have "startsWith fence (((c # inner') @ fence) @ post) = startsWith fence ((c # inner') @ fence)"
      by (rule startsWith_append) (simp add: fence_def)
    with False post have zero: "\<not> startsWith fence ((c # inner') @ fence)"
      by simp
    have "\<forall>p<length (c # inner'). \<not> startsWith fence (drop p ((c # inner') @ fence))"
    proof (intro allI impI)
      fix p assume p: "p < length (c # inner')"
      show "\<not> startsWith fence (drop p ((c # inner') @ fence))"
      proof (cases p)
        case 0
        with zero show ?thesis by simp
      next
        case (Suc q)
        with p free show ?thesis by simp
      qed
    qed
    with post i(2) show ?thesis
      by simp
  qed
qed

lemma code_block_at_Some:
  assumes "code_block_at marker s = Some inner"
  shows "\<exists>mk ws tag post.
           s = mk @ ws @ fence @ tag @ [10] @ inner @ fence @ post
         \<and> map canon mk = map canon marker
         \<and> (\<forall>c\<in>set ws. is_space c) \<and> (\<forall>c\<in>set tag. is_word c)
         \<and> (\<forall>p<length inner. \<not> startsWith fence (drop p (inner @ fence)))"
proof -
  let ?r0 = "drop (length marker) s"
  let ?r1 = "dropWhile is_space ?r0"
  let ?r2 = "drop 3 ?r1"
  from assms have ci: "ci_starts marker s"
    by (simp add: code_block_at_def split: if_splits)
  with assms have fs: "startsWith fence ?r1"
    by (simp add: code_block_at_def Let_def split: if_splits)
  with ci assms obtain r3 where r3: "dropWhile is_word ?r2 = 10 # r3" "until_fence r3 = Some inner"
    by (auto simp: code_block_at_def Let_def split: if_splits list.splits)
  from until_fence_Some [OF r3(2)] obtain post where post: "r3 = inner @ fence @ post"
    and free: "\<forall>p<length inner. \<not> startsWith fence (drop p (inner @ fence))"
    by blast
  have s: "s = take (length marker) s @ ?r0"
    by simp
  have r0: "?r0 = takeWhile is_space ?r0 @ ?r1"
    by simp
  from fs have r1: "?r1 = fence @ ?r2"
    by (metis append_take_drop_id fence_def length_Cons list.size(3) length_map
        numeral_3_eq_3 startsWith_def)
  have r2: "?r2 = takeWhile is_word ?r2 @ [10] @ inner @ fence @ post"
    using r3(1) post by (metis append_Cons append_Nil takeWhile_dropWhile_id)
  have "s = take (length marker) s @ takeWhile is_space ?r0 @ fence
            @ takeWhile is_word ?r2 @ [10] @ inner @ fence @ post"
    using s r0 r1 r2 by metis
  moreover from ci have "map canon (take (length marker) s) = map canon marker"
    by (simp add: ci_starts_def)
  moreover have "\<forall>c\<in>set (takeWhile is_space ?r0). is_space c"
    by (auto dest: set_takeWhileD)
  moreover have "\<forall>c\<in>set (takeWhile is_word ?r2). is_word c"
    by (auto dest: set_takeWhileD)
  ultimately show ?thesis
    using free by blast
qed

text \<open>
  C8, as amended. Take the first place of the reply where the block pattern
  matches: \<^verbatim>\<open>CORRECTED_CODE:\<close> in letters of either case, then white space (or
  nothing), an opening fence, a language tag of word characters (or none), a
  line feed, a text \<open>inner\<close> and the first fence after the line feed. Then
  \<^verbatim>\<open>correctedCode\<close> is \<open>inner\<close> trimmed when that is not empty, and the field is
  absent when it is. Earlier places where the marker stands without such a block
  do not count. The same holds for \<^verbatim>\<open>OPTIMIZED_CODE:\<close> and \<^verbatim>\<open>optimizedCode\<close>.
  By \<open>code_block_at_found\<close> and \<open>code_block_at_Some\<close> the pattern matches at a
  place exactly when the text from there on has this shape.
\<close>

theorem fenced_code_is_extracted:
  assumes t: "t = pre @ mk @ ws @ fence @ tag @ [10] @ inner @ fence @ post"
    and mk: "map canon mk = map canon marker"
    and first: "\<forall>p<length pre. code_block_at marker (drop p t) = None"
    and ws: "\<forall>c\<in>set ws. is_space c"
    and tag: "\<forall>c\<in>set tag. is_word c"
    and inner: "\<forall>p<length inner. \<not> startsWith fence (drop p (inner @ fence))"
  shows "(marker = lit ''CORRECTED_CODE:'' \<longrightarrow>
            correctedCode (parseCodeAnalysisResponse Completes t maxScore)
              = (if trim inner = [] then None else Some (trim inner)))
       \<and> (marker = lit ''OPTIMIZED_CODE:'' \<longrightarrow>
            optimizedCode (parseCodeAnalysisResponse Completes t maxScore)
              = (if trim inner = [] then None else Some (trim inner)))"
proof -
  have "length pre \<le> length t"
    using t by simp
  from regex_search_skip [OF first this]
  have "regex_search (code_block_at marker) t
        = regex_search (code_block_at marker) (mk @ ws @ fence @ tag @ [10] @ inner @ fence @ post)"
    using t by simp
  also have "\<dots> = Some inner"
    by (rule regex_search_hit) (rule code_block_at_found [OF mk ws tag inner])
  finally have "extract_code marker t = trim inner"
    by (simp add: extract_code_def)
  then show ?thesis
    unfolding parse_outcome code_try by (intro conjI impI) (simp_all del: list.map)
qed

lemmas code_eval =
  parseCodeAnalysisResponse_try_def extract_code_def code_block_at_def fence_def startsWith_def
  ci_starts_def trim_def char_defs Let_def

theorem fenced_code_is_extracted_witness:
  "code_block_at (lit ''CORRECTED_CODE:'')
      (drop 4 (lit ''see CORRECTED_CODE: below\<newline>corrected_code:\<newline>```js\<newline>  foo()\<newline>```\<newline>done''))
     = None
   \<and> ci_starts (lit ''CORRECTED_CODE:'')
      (drop 4 (lit ''see CORRECTED_CODE: below\<newline>corrected_code:\<newline>```js\<newline>  foo()\<newline>```\<newline>done''))
   \<and> correctedCode (parseCodeAnalysisResponse Completes
      (lit ''see CORRECTED_CODE: below\<newline>corrected_code:\<newline>```js\<newline>  foo()\<newline>```\<newline>done'') 100)
     = Some (lit ''foo()'')"
proof -
  let ?m = "lit ''CORRECTED_CODE:''"
  let ?t = "lit ''see CORRECTED_CODE: below\<newline>corrected_code:\<newline>```js\<newline>  foo()\<newline>```\<newline>done''"
  have t: "?t = lit ''see CORRECTED_CODE: below\<newline>'' @ lit ''corrected_code:'' @ lit ''\<newline>''
                 @ fence @ lit ''js'' @ [10] @ lit ''  foo()\<newline>'' @ fence @ lit ''\<newline>done''"
    by (simp add: fence_def)
  have mk: "map canon (lit ''corrected_code:'') = map canon ?m"
    by (simp add: canon_def)
  have first: "\<forall>p<length (lit ''see CORRECTED_CODE: below\<newline>''). code_block_at ?m (drop p ?t) = None"
    by (simp add: code_block_at_def ci_starts_def startsWith_def fence_def char_defs Let_def
        All_less_Suc)
  have ws: "\<forall>c\<in>set (lit ''\<newline>''). is_space c"
    by (simp add: char_defs)
  have tag: "\<forall>c\<in>set (lit ''js''). is_word c"
    by (simp add: char_defs)
  have inner: "\<forall>p<length (lit ''  foo()\<newline>'').
                 \<not> startsWith fence (drop p (lit ''  foo()\<newline>'' @ fence))"
    by (simp add: startsWith_def fence_def All_less_Suc)
  have tr: "trim (lit ''  foo()\<newline>'') = lit ''foo()''"
    by (simp add: trim_def char_defs)
  have early: "code_block_at ?m (drop 4 ?t) = None"
    by (simp add: code_block_at_def ci_starts_def startsWith_def fence_def char_defs Let_def)
  have marker: "ci_starts ?m (drop 4 ?t)"
    by (simp add: ci_starts_def canon_def)
  note th = fenced_code_is_extracted [OF t mk first ws tag inner, where maxScore = 100,
      THEN conjunct1, THEN mp, OF refl, unfolded tr]
  from th early marker show ?thesis by simp
qed

text \<open>
  C8 as stated fails: a fenced block whose inner text is blank leaves
  \<^verbatim>\<open>correctedCode\<close> absent although the pattern matches it, and a block whose
  language tag is \<^verbatim>\<open>c++\<close> is not matched at all.
\<close>

theorem fenced_code_not_extracted:
  "regex_search (code_block_at (lit ''CORRECTED_CODE:''))
      (lit ''CORRECTED_CODE:\<newline>```js\<newline>\<newline>```'') = Some (lit ''\<newline>'')
   \<and> correctedCode (parseCodeAnalysisResponse Completes
        (lit ''CORRECTED_CODE:\<newline>```js\<newline>\<newline>```'') 100) = None
   \<and> correctedCode (parseCodeAnalysisResponse Completes
        (lit ''CORRECTED_CODE:\<newline>```c++\<newline>int x;\<newline>```'') 100) = None"
  by (simp add: code_eval)

section \<open>Optional fields of the code variant\<close>

lemma issues_loop_filter:
  "issues_loop ls =
     map (\<lambda>l. the (regex_search issue_at l))
       (filter (\<lambda>l. (startsWith (lit ''-'') l \<or> startsWith [bullet_char] l)
                    \<and> regex_search issue_at l \<noteq> None) ls)"
  by (induction ls) auto

lemma takeWhile_always: "takeWhile (\<lambda>l. True) xs = xs"
  by (induction xs) simp_all

lemma extract_issues_conforming:
  "extract_issues lns = map (\<lambda>l. the (regex_search issue_at l)) (conforming_issue_lines lns)"
proof (cases "findIndex (has_marker (lit ''code_issues:'')) lns")
  case None
  show ?thesis
    unfolding extract_issues_def conforming_issue_lines_def section_after_def None
      findIndex_None [OF None]
    by simp
next
  case (Some i)
  show ?thesis
    unfolding extract_issues_def conforming_issue_lines_def section_after_def Some
      findIndex_Some [OF Some]
    by (simp add: issues_loop_filter takeWhile_always)
qed

lemma optional_catch:
  "correctedCode (parseCodeAnalysisResponse_catch t m) = None"
  "optimizedCode (parseCodeAnalysisResponse_catch t m) = None"
  "codeIssues (parseCodeAnalysisResponse_catch t m) = None"
  "category (parseCodeAnalysisResponse_catch t m) = None"
  by (simp_all add: parseCodeAnalysisResponse_catch_def)

text \<open>
  C10. On the normal path of the code variant, \<^verbatim>\<open>correctedCode\<close> and
  \<^verbatim>\<open>optimizedCode\<close> are present exactly when the block pattern matches and its
  capture is not blank, and then hold the trimmed capture; \<^verbatim>\<open>codeIssues\<close> is
  present exactly when some bullet line after the \<^verbatim>\<open>code_issues:\<close> line matches
  the issue pattern, and then holds their issues. No field is ever present with
  an empty string or an empty list. The result of the exception handler has none
  of the three fields and no category.
\<close>

theorem optional_fields_absent_when_empty:
  "correctedCode (parseCodeAnalysisResponse Completes t maxScore) =
     (case regex_search (code_block_at (lit ''CORRECTED_CODE:'')) t of
        None \<Rightarrow> None
      | Some inner \<Rightarrow> if trim inner = [] then None else Some (trim inner))
   \<and> optimizedCode (parseCodeAnalysisResponse Completes t maxScore) =
     (case regex_search (code_block_at (lit ''OPTIMIZED_CODE:'')) t of
        None \<Rightarrow> None
      | Some inner \<Rightarrow> if trim inner = [] then None else Some (trim inner))
   \<and> codeIssues (parseCodeAnalysisResponse Completes t maxScore) =
     (if conforming_issue_lines (lines_of t) = [] then None
      else Some (map (\<lambda>l. the (regex_search issue_at l)) (conforming_issue_lines (lines_of t))))
   \<and> correctedCode (parseCodeAnalysisResponse Completes t maxScore) \<noteq> Some []
   \<and> optimizedCode (parseCodeAnalysisResponse Completes t maxScore) \<noteq> Some []
   \<and> codeIssues (parseCodeAnalysisResponse Completes t maxScore) \<noteq> Some []
   \<and> correctedCode (parseCodeAnalysisResponse Throws t maxScore) = None
   \<and> optimizedCode (parseCodeAnalysisResponse Throws t maxScore) = None
   \<and> codeIssues (parseCodeAnalysisResponse Throws t maxScore) = None
   \<and> category (parseCodeAnalysisResponse Throws t maxScore) = None"
  unfolding parse_outcome code_try optional_catch extract_issues_conforming extract_code_def
  by (simp split: option.split del: list.map(2))

theorem optional_fields_absent_when_empty_witness:
  "regex_search (code_block_at (lit ''CORRECTED_CODE:''))
      (lit ''CORRECTED_CODE:\<newline>```\<newline>  \<newline>```\<newline>OPTIMIZED_CODE:\<newline>```py\<newline>x = 1\<newline>```\<newline>CODE_ISSUES:\<newline>- none'')
     = Some (lit ''  \<newline>'')
   \<and> correctedCode (parseCodeAnalysisResponse Completes
      (lit ''CORRECTED_CODE:\<newline>```\<newline>  \<newline>```\<newline>OPTIMIZED_CODE:\<newline>```py\<newline>x = 1\<newline>```\<newline>CODE_ISSUES:\<newline>- none'') 100)
     = None
   \<and> optimizedCode (parseCodeAnalysisResponse Completes
      (lit ''CORRECTED_CODE:\<newline>```\<newline>  \<newline>```\<newline>OPTIMIZED_CODE:\<newline>```py\<newline>x = 1\<newline>```\<newline>CODE_ISSUES:\<newline>- none'') 100)
     = Some (lit ''x = 1'')
   \<and> codeIssues (parseCodeAnalysisResponse Completes
      (lit ''CORRECTED_CODE:\<newline>```\<newline>  \<newline>```\<newline>OPTIMIZED_CODE:\<newline>```py\<newline>x = 1\<newline>```\<newline>CODE_ISSUES:\<newline>- none'') 100)
     = None"
proof -
  let ?t = "lit ''CORRECTED_CODE:\<newline>```\<newline>  \<newline>```\<newline>OPTIMIZED_CODE:\<newline>```py\<newline>x = 1\<newline>```\<newline>CODE_ISSUES:\<newline>- none''"
  have a: "regex_search (code_block_at (lit ''CORRECTED_CODE:'')) ?t = Some (lit ''  \<newline>'')"
    by (simp add: code_eval)
  have b: "regex_search (code_block_at (lit ''OPTIMIZED_CODE:'')) ?t = Some (lit ''x = 1\<newline>'')"
    by (simp add: code_eval)
  have c: "conforming_issue_lines (lines_of ?t) = []"
    by (simp add: conforming_issue_lines_def section_eval issue_defs)
  note th = optional_fields_absent_when_empty [where t = ?t and maxScore = 100, unfolded a b c]
  from th a show ?thesis
    by (simp add: trim_def char_defs)
qed

section \<open>The summarize route: a request without text\<close>

text \<open>
  C9. When the \<^verbatim>\<open>text\<close> property of the body is missing or falsy, the handler
  answers 400 with the error \<^verbatim>\<open>Text is required\<close> and leaves the state as it was:
  no call of the AI client, no call of the database, no new summary.
\<close>

theorem summarize_rejects_missing_text:
  assumes "\<not> truthy (text_of req_body)"
  shows "summarize_handler env req_body w
           = (\<lparr>status = 400, body = ErrorBody (lit ''Text is required'')\<rparr>, w)"
  using assms by (simp add: summarize_handler_def Let_def del: list.map(2))

theorem summarize_rejects_missing_text_witness:
  "\<not> truthy (text_of Map.empty)
   \<and> \<not> truthy (text_of [lit ''text'' \<mapsto> JString []])
   \<and> fst (summarize_handler
            \<lparr>generateContent = (\<lambda>p. Some (lit ''Hi.'')), toString = (\<lambda>v. []),
             prisma_create = (\<lambda>tab v s. None)\<rparr>
            Map.empty \<lparr>ai_calls = [], db_calls = [], summaries = []\<rparr>)
       = \<lparr>status = 400, body = ErrorBody (lit ''Text is required'')\<rparr>
   \<and> snd (summarize_handler
            \<lparr>generateContent = (\<lambda>p. Some (lit ''Hi.'')), toString = (\<lambda>v. []),
             prisma_create = (\<lambda>tab v s. None)\<rparr>
            [lit ''text'' \<mapsto> JString []] \<lparr>ai_calls = [], db_calls = [], summaries = []\<rparr>)
       = \<lparr>ai_calls = [], db_calls = [], summaries = []\<rparr>"
proof -
  let ?env = "\<lparr>generateContent = (\<lambda>p. Some (lit ''Hi.'')), toString = (\<lambda>v. []),
               prisma_create = (\<lambda>tab v s. None)\<rparr>"
  let ?w = "\<lparr>ai_calls = [], db_calls = [], summaries = []\<rparr>"
  have a: "\<not> truthy (text_of Map.empty)"
    by (simp add: text_of_def)
  have b: "\<not> truthy (text_of [lit ''text'' \<mapsto> JString []])"
    by (simp add: text_of_def)
  from summarize_rejects_missing_text [OF a, of ?env ?w]
    summarize_rejects_missing_text [OF b, of ?env ?w] a b
  show ?thesis by simp
qed

lemma summarize_calls_ai_when_text:
  "truthy (text_of req_body) \<Longrightarrow>
   ai_calls (snd (summarize_handler env req_body w)) \<noteq> ai_calls w"
  by (auto simp: summarize_handler_def summarizeText_def Let_def
      split: option.splits prod.splits simp del: list.map(2))

end
